theory Spec2Isabelle
  imports Complex_Main "HOL-Library.AList"
begin

section \<open>Transcript segments\<close>

text \<open>
  JavaScript numbers are modelled as reals: timestamps, confidences and progress values
  are idealised, so rounding error, NaN and the infinities of IEEE doubles are outside
  the model. A field that may be \<open>undefined\<close> is an \<open>option\<close>.
\<close>

record word =
  w_text :: string
  w_start :: real
  w_end :: real
  w_confidence :: real

text \<open>
  A segment as the provider adapters build it:
  \<open>{id, start, end, text, confidence, words}\<close>. The diarization service spreads a
  segment into a new object and adds \<open>speaker\<close> (a string or \<open>null\<close>) and
  \<open>speakerConfidence\<close>.
\<close>

record segment =
  seg_id :: nat
  seg_start :: real
  seg_end :: real
  seg_text :: string
  seg_confidence :: real
  seg_words :: "word list option"

record dsegment = segment +
  speaker :: "string option"
  speakerConfidence :: real

subsection \<open>String splitting\<close>

text \<open>
  \<open>text.split(' ')\<close>: the pieces between single spaces. The result is never empty:
  the empty string splits into one empty piece.
\<close>

fun split_space :: "string \<Rightarrow> string list" where
  "split_space [] = [[]]"
| "split_space (c # cs) =
     (if c = CHR '' '' then [] # split_space cs
      else (case split_space cs of
              [] \<Rightarrow> [[c]]
            | p # ps \<Rightarrow> (c # p) # ps))"

subsection \<open>SpeakerDiarizationService.calculateSpeechRate\<close>

text \<open>
  \<^verbatim>\<open>
  calculateSpeechRate(segment) {
    const duration = segment.end - segment.start;
    const wordCount = segment.words ? segment.words.length : segment.text.split(' ').length;
    return duration > 0 ? wordCount / duration : 0; // words per second
  }
  \<close>
  An array is truthy even when empty, so a present word list is always the one counted.
  \<open>segment.text\<close> is a string in every segment: each adapter sets it, and
  \<open>extractAudioFeatures\<close> has read \<open>segment.text.length\<close> before it makes this call.

  A division in JavaScript does not fail on a zero divisor: it returns \<open>Infinity\<close>,
  \<open>-Infinity\<close> or \<open>NaN\<close>. The result of the function is therefore a JavaScript number
  in which these three values are told apart from the finite ones, and \<open>js_divide\<close> is
  the operator \<open>/\<close> on finite operands. (A zero divisor is taken as \<open>+0\<close>, which is what
  the subtraction of two equal timestamps gives.)
\<close>

datatype js_number = Finite real | Pos_infinity | Neg_infinity | Not_a_number

definition js_divide :: "real \<Rightarrow> real \<Rightarrow> js_number" where
  "js_divide x y =
     (if y \<noteq> 0 then Finite (x / y)
      else if x > 0 then Pos_infinity
      else if x < 0 then Neg_infinity
      else Not_a_number)"

definition wordCount :: "'a segment_scheme \<Rightarrow> nat" where
  "wordCount segment =
     (case seg_words segment of
        Some ws \<Rightarrow> length ws
      | None \<Rightarrow> length (split_space (seg_text segment)))"

definition calculateSpeechRate :: "'a segment_scheme \<Rightarrow> js_number" where
  "calculateSpeechRate segment =
     (let duration = seg_end segment - seg_start segment
      in if duration > 0 then js_divide (real (wordCount segment)) duration else Finite 0)"

subsection \<open>WhisperService.mergeCloseSegments\<close>

text \<open>
  \<^verbatim>\<open>
  mergeCloseSegments(segments, maxGap = 1.0) {
    if (!segments || segments.length === 0) return segments;
    const merged = [segments[0]];
    for (let i = 1; i < segments.length; i++) {
      const current = segments[i];
      const previous = merged[merged.length - 1];
      if (current.start - previous.end <= maxGap) {
        previous.end = current.end;
        previous.text += ' ' + current.text;
        if (previous.words && current.words) {
          previous.words = previous.words.concat(current.words);
        }
        previous.confidence = (previous.confidence + current.confidence) / 2;
      } else {
        merged.push(current);
      }
    }
    merged.forEach((segment, index) => { segment.id = index; });
    return merged;
  }
  \<close>
  The loop mutates the last element of \<open>merged\<close> in place; the model rebuilds the
  list with that element replaced. \<open>merged\<close> is never empty inside the loop.
\<close>

definition absorb :: "segment \<Rightarrow> segment \<Rightarrow> segment" where
  "absorb previous current =
     previous\<lparr>
       seg_end := seg_end current,
       seg_text := seg_text previous @ '' '' @ seg_text current,
       seg_words :=
         (case seg_words previous of
            None \<Rightarrow> seg_words previous
          | Some pw \<Rightarrow>
              (case seg_words current of
                 None \<Rightarrow> seg_words previous
               | Some cw \<Rightarrow> Some (pw @ cw))),
       seg_confidence := (seg_confidence previous + seg_confidence current) / 2\<rparr>"

fun merge_loop :: "real \<Rightarrow> segment list \<Rightarrow> segment list \<Rightarrow> segment list" where
  "merge_loop maxGap merged [] = merged"
| "merge_loop maxGap merged (current # rest) =
     (let previous = last merged
      in if seg_start current - seg_end previous \<le> maxGap
         then merge_loop maxGap (butlast merged @ [absorb previous current]) rest
         else merge_loop maxGap (merged @ [current]) rest)"

definition reindex :: "segment list \<Rightarrow> segment list" where
  "reindex merged = map (\<lambda>(index, segment). segment\<lparr>seg_id := index\<rparr>) (enumerate 0 merged)"

definition mergeCloseSegments :: "segment list \<Rightarrow> real \<Rightarrow> segment list" where
  "mergeCloseSegments segments maxGap =
     (case segments of
        [] \<Rightarrow> []
      | first # rest \<Rightarrow> reindex (merge_loop maxGap [first] rest))"

text \<open>
  The merge rule as the specification words it, pair by pair from the front of the list:
  two neighbours whose gap is within the threshold become one segment that starts with
  the first and ends with the second, and that segment is then compared with the next.
\<close>

definition spec_join :: "segment \<Rightarrow> segment \<Rightarrow> segment" where
  "spec_join a b =
     \<lparr>seg_id = seg_id a,
      seg_start = seg_start a,
      seg_end = seg_end b,
      seg_text = seg_text a @ '' '' @ seg_text b,
      seg_confidence = (seg_confidence a + seg_confidence b) / 2,
      seg_words =
        (if seg_words a \<noteq> None \<and> seg_words b \<noteq> None
         then Some (the (seg_words a) @ the (seg_words b))
         else seg_words a)\<rparr>"

fun spec_merge :: "real \<Rightarrow> segment list \<Rightarrow> segment list" where
  "spec_merge threshold [] = []"
| "spec_merge threshold [a] = [a]"
| "spec_merge threshold (a # b # rest) =
     (if seg_start b - seg_end a \<le> threshold
      then spec_merge threshold (spec_join a b # rest)
      else a # spec_merge threshold (b # rest))"

subsection \<open>SpeakerDiarizationService.smoothSpeakerTransitions\<close>

text \<open>
  \<^verbatim>\<open>
  smoothSpeakerTransitions(segments) {
    for (let i = 1; i < segments.length - 1; i++) {
      const current = segments[i];
      const previous = segments[i - 1];
      const next = segments[i + 1];
      if (previous.speaker === next.speaker &&
          current.speaker !== previous.speaker &&
          (current.end - current.start) < 2.0 &&
          current.speakerConfidence < 0.8) {
        current.speaker = previous.speaker;
        current.speakerConfidence = 0.6;
      }
    }
  }
  \<close>
  The pass works in place from left to right, so \<open>previous\<close> is read after it may have
  been reassigned itself. The loop visits the indices \<open>1 .. length - 2\<close>, all in range.
\<close>

definition smooth_at :: "nat \<Rightarrow> dsegment list \<Rightarrow> dsegment list" where
  "smooth_at i segments =
     (let current = segments ! i;
          previous = segments ! (i - 1);
          next = segments ! (i + 1)
      in if speaker previous = speaker next
            \<and> speaker current \<noteq> speaker previous
            \<and> seg_end current - seg_start current < 2
            \<and> speakerConfidence current < 8 / 10
         then segments[i := current\<lparr>speaker := speaker previous, speakerConfidence := 6 / 10\<rparr>]
         else segments)"

definition smoothSpeakerTransitions :: "dsegment list \<Rightarrow> dsegment list" where
  "smoothSpeakerTransitions segments = fold smooth_at [1 ..< length segments - 1] segments"


subsection \<open>Example segments\<close>

definition ex_seg :: "real \<Rightarrow> real \<Rightarrow> string \<Rightarrow> segment" where
  "ex_seg s e t = \<lparr>seg_id = 7, seg_start = s, seg_end = e, seg_text = t,
     seg_confidence = 1 / 2, seg_words = Some []\<rparr>"

definition spk :: "string \<Rightarrow> real \<Rightarrow> real \<Rightarrow> real \<Rightarrow> dsegment" where
  "spk name s e c = \<lparr>seg_id = 0, seg_start = s, seg_end = e, seg_text = ''ya'',
     seg_confidence = 1, seg_words = None, speaker = Some name, speakerConfidence = c\<rparr>"

text \<open>
  A segment of 1.5 s between two segments of 10 s of another speaker, and five
  alternating segments of 1.5 s each with assignment confidence 0.5.
\<close>

definition flicker3 :: "real \<Rightarrow> dsegment list" where
  "flicker3 c = [spk ''speaker_1'' 0 10 1, spk ''speaker_2'' 10 (23 / 2) c, spk ''speaker_1'' 12 22 1]"

definition flicker5 :: "dsegment list" where
  "flicker5 = [spk ''speaker_1'' 0 (3 / 2) (1 / 2), spk ''speaker_2'' 2 (7 / 2) (1 / 2),
               spk ''speaker_1'' 4 (11 / 2) (1 / 2), spk ''speaker_2'' 6 (15 / 2) (1 / 2),
               spk ''speaker_1'' 8 (19 / 2) (1 / 2)]"

section \<open>The transcription queue\<close>

subsection \<open>Jobs and stage progress\<close>

text \<open>
  A job as \<open>addJob\<close> builds it. The status strings of the source are the constructors
  below; no code path sets a status other than these four, a job being processed still
  reads \<open>'queued'\<close>. \<open>stages\<close> is the object keyed by the five stage names. Fields of the
  job data that no modelled function reads (file name, paths, dates, the result payload)
  are left out.
\<close>

datatype job_status = Queued | Completed | Failed | Cancelled

datatype stage = Upload | Processing | Transcription | Diarization | Finalization

datatype stage_status = Pending | In_progress | Stage_completed

record stage_info =
  st_status :: stage_status
  st_progress :: real

record job =
  job_id :: string
  speechService :: "string option"
  status :: job_status
  progress :: int
  stages :: "stage \<Rightarrow> stage_info"
  error :: "string option"

definition new_job :: "string \<Rightarrow> string option \<Rightarrow> job" where
  "new_job jobId service =
     \<lparr>job_id = jobId,
      speechService = service,
      status = Queued,
      progress = 0,
      stages = (\<lambda>stageName.
         if stageName = Upload then \<lparr>st_status = Stage_completed, st_progress = 100\<rparr>
         else \<lparr>st_status = Pending, st_progress = 0\<rparr>),
      error = None\<rparr>"

text \<open>
  \<^verbatim>\<open>
  async updateJobProgress(job, stage, status, progress) {
    job.stages[stage].status = status;
    job.stages[stage].progress = progress;
    const stageWeights = { upload: 10, processing: 10, transcription: 60,
                           diarization: 15, finalization: 5 };
    let totalProgress = 0;
    Object.keys(job.stages).forEach(stageName => {
      const stageProgress = job.stages[stageName].progress;
      totalProgress += (stageProgress * stageWeights[stageName]) / 100;
    });
    job.progress = Math.round(totalProgress);
    this.io.to(...).emit('job-progress', {jobId, stage, status, progress,
                                          overallProgress: job.progress, ...});
  }
  \<close>
  \<open>Math.round\<close> rounds to the nearest integer, halves upwards. \<open>Object.keys\<close> lists the
  stages in the order \<open>addJob\<close> wrote them.
\<close>

definition stageWeights :: "stage \<Rightarrow> real" where
  "stageWeights stageName =
     (case stageName of
        Upload \<Rightarrow> 10
      | Processing \<Rightarrow> 10
      | Transcription \<Rightarrow> 60
      | Diarization \<Rightarrow> 15
      | Finalization \<Rightarrow> 5)"

definition stage_names :: "stage list" where
  "stage_names = [Upload, Processing, Transcription, Diarization, Finalization]"

definition js_round :: "real \<Rightarrow> int" where
  "js_round x = \<lfloor>x + 1 / 2\<rfloor>"

definition totalProgress :: "(stage \<Rightarrow> stage_info) \<Rightarrow> real" where
  "totalProgress stgs =
     fold (\<lambda>stageName total. total + (st_progress (stgs stageName) * stageWeights stageName) / 100)
       stage_names 0"

definition updateJobProgress :: "job \<Rightarrow> stage \<Rightarrow> stage_status \<Rightarrow> real \<Rightarrow> job" where
  "updateJobProgress job stageName st p =
     (let stgs = (stages job)(stageName := \<lparr>st_status = st, st_progress = p\<rparr>)
      in job\<lparr>stages := stgs, progress := js_round (totalProgress stgs)\<rparr>)"

text \<open>
  \<^verbatim>\<open>
  getCurrentStage(job) {
    for (const [stage, info] of Object.entries(job.stages)) {
      if (info.status === 'in_progress') return stage;
    }
    return 'unknown';
  }
  \<close>
\<close>

definition getCurrentStage :: "job \<Rightarrow> stage option" where
  "getCurrentStage job = find (\<lambda>stageName. st_status (stages job stageName) = In_progress) stage_names"

subsection \<open>Scheduler state\<close>

text \<open>
  The queue object holds the pending \<open>queue\<close> array, the \<open>processing\<close> Map (insertion
  ordered, so an association list) and \<open>maxConcurrent\<close>. Three more components record what
  the object does to the outside: the suspended \<open>processJob\<close> continuations of the
  runtime (\<open>tasks\<close>: where each running job awaits), the socket events \<open>emitted\<close>, the
  calls made to speech providers (\<open>provider_calls\<close>: job and provider name), and the job
  objects that have left both containers, in their last state (\<open>released\<close>).
\<close>

datatype await_point =
  Await_audio | Await_primary | Await_fallback | Await_diarization | Await_save

datatype emitted_event =
  Job_queued string nat
| Job_progress string stage stage_status real int
| Job_completed string
| Job_failed string string "stage option"

record queue_state =
  queue :: "job list"
  processing :: "(string \<times> job) list"
  maxConcurrent :: int
  tasks :: "string \<Rightarrow> await_point option"
  emitted :: "emitted_event list"
  provider_calls :: "(string \<times> string) list"
  released :: "job list"

text \<open>
  \<open>this.maxConcurrent = parseInt(process.env.MAX_CONCURRENT_JOBS) || 3\<close>: the argument is
  the parsed integer, \<open>None\<close> for \<open>NaN\<close>; \<open>NaN\<close> and 0 are falsy.
\<close>

definition constructor :: "int option \<Rightarrow> queue_state" where
  "constructor parsed =
     \<lparr>queue = [],
      processing = [],
      maxConcurrent = (case parsed of None \<Rightarrow> 3 | Some n \<Rightarrow> if n = 0 then 3 else n),
      tasks = (\<lambda>jobId. None),
      emitted = [],
      provider_calls = [],
      released = []\<rparr>"

text \<open>
  \<open>addJob\<close>: the id is the fresh \<open>uuidv4()\<close>, the job data contributes the speech service.
\<close>

definition addJob :: "string \<Rightarrow> string option \<Rightarrow> queue_state \<Rightarrow> queue_state" where
  "addJob jobId service s =
     s\<lparr>queue := queue s @ [new_job jobId service],
       emitted := emitted s @ [Job_queued jobId (length (queue s) + 1)]\<rparr>"

text \<open>
  The calls of \<open>updateJobProgress\<close> made by a running job act on the job object that the
  \<open>processing\<close> Map holds.
\<close>

definition progress_update ::
  "string \<Rightarrow> stage \<Rightarrow> stage_status \<Rightarrow> real \<Rightarrow> queue_state \<Rightarrow> queue_state" where
  "progress_update jobId stageName st p s =
     (case map_of (processing s) jobId of
        None \<Rightarrow> s
      | Some job \<Rightarrow>
          (let job' = updateJobProgress job stageName st p
           in s\<lparr>processing := AList.update jobId job' (processing s),
                emitted := emitted s @ [Job_progress jobId stageName st p (progress job')]\<rparr>))"

text \<open>
  \<^verbatim>\<open>
  async processQueue() {
    if (this.processing.size >= this.maxConcurrent || this.queue.length === 0) return;
    const job = this.queue.shift();
    this.processing.set(job.id, job);
    try { await this.processJob(job); }
    catch (error) { this.handleJobError(job, error); }
    finally { this.processing.delete(job.id); }
  }
  \<close>
  \<open>processJob\<close> runs up to its first real suspension, the ffmpeg transcode of
  \<open>processAudio\<close>, within the tick.
\<close>

definition processQueue :: "queue_state \<Rightarrow> queue_state" where
  "processQueue s =
     (if int (length (processing s)) \<ge> maxConcurrent s \<or> queue s = [] then s
      else
        (let job = hd (queue s);
             s1 = s\<lparr>queue := tl (queue s),
                    processing := AList.update (job_id job) job (processing s)\<rparr>;
             s2 = progress_update (job_id job) Processing In_progress 0 s1
         in s2\<lparr>tasks := (tasks s2)(job_id job \<mapsto> Await_audio)\<rparr>))"

text \<open>
  \<^verbatim>\<open>
  handleJobError(job, error) {
    job.status = 'failed';
    job.error = error.message;
    this.io.to(...).emit('job-failed', {jobId, error: error.message,
                                        stage: this.getCurrentStage(job)});
  }
  \<close>
  followed by the \<open>finally\<close> of \<open>processQueue\<close>.
\<close>

definition handleJobError :: "job \<Rightarrow> string \<Rightarrow> job" where
  "handleJobError job message = job\<lparr>status := Failed, error := Some message\<rparr>"

definition job_throws :: "string \<Rightarrow> string \<Rightarrow> queue_state \<Rightarrow> queue_state" where
  "job_throws jobId message s =
     (case map_of (processing s) jobId of
        None \<Rightarrow> s
      | Some job \<Rightarrow>
          (let job' = handleJobError job message
           in s\<lparr>processing := AList.delete jobId (processing s),
                tasks := (tasks s)(jobId := None),
                emitted := emitted s @ [Job_failed jobId message (getCurrentStage job')],
                released := released s @ [job']\<rparr>))"

text \<open>
  The end of \<open>processJob\<close> after the save has returned:
  \<^verbatim>\<open>
      await this.updateJobProgress(job, 'finalization', 'completed', 100);
      job.status = 'completed';
      this.io.to(...).emit('job-completed', {jobId: job.id, result: finalResult});
  \<close>
  followed by the \<open>finally\<close> of \<open>processQueue\<close>.
\<close>

definition job_returns :: "string \<Rightarrow> queue_state \<Rightarrow> queue_state" where
  "job_returns jobId s =
     (let s1 = progress_update jobId Finalization Stage_completed 100 s
      in case map_of (processing s1) jobId of
           None \<Rightarrow> s1
         | Some job \<Rightarrow>
             s1\<lparr>processing := AList.delete jobId (processing s1),
                tasks := (tasks s1)(jobId := None),
                emitted := emitted s1 @ [Job_completed jobId],
                released := released s1 @ [job\<lparr>status := Completed\<rparr>]\<rparr>)"

text \<open>
  \<^verbatim>\<open>
  async transcribeAudio(job, audioPath) {
    const service = job.speechService || 'whisper';
    let transcriptionResult;
    try {
      switch (service) {
        case 'whisper': transcriptionResult = await this.speechServices.whisper.transcribe(...); break;
        case 'google':  transcriptionResult = await this.speechServices.google.transcribe(...); break;
        case 'azure':   transcriptionResult = await this.speechServices.azure.transcribe(...); break;
        default: throw new Error(`Unsupported speech service: ${service}`);
      }
    } catch (error) {
      transcriptionResult = await this.speechServices.whisper.transcribe(audioPath, options,
        (progress) => { this.updateJobProgress(job, 'transcription', 'in_progress', progress); });
    }
    return transcriptionResult;
  }
  \<close>
  An unsupported service name throws inside the \<open>try\<close>, so the job goes to the Whisper
  call of the \<open>catch\<close> at once.
\<close>

definition service_of :: "job \<Rightarrow> string" where
  "service_of job =
     (case speechService job of
        None \<Rightarrow> ''whisper''
      | Some name \<Rightarrow> if name = [] then ''whisper'' else name)"

definition call_fallback :: "string \<Rightarrow> queue_state \<Rightarrow> queue_state" where
  "call_fallback jobId s =
     s\<lparr>provider_calls := provider_calls s @ [(jobId, ''whisper'')],
       tasks := (tasks s)(jobId \<mapsto> Await_fallback)\<rparr>"

definition transcribeAudio :: "string \<Rightarrow> queue_state \<Rightarrow> queue_state" where
  "transcribeAudio jobId s =
     (case map_of (processing s) jobId of
        None \<Rightarrow> s
      | Some job \<Rightarrow>
          (let service = service_of job
           in if service = ''whisper'' \<or> service = ''google'' \<or> service = ''azure''
              then s\<lparr>provider_calls := provider_calls s @ [(jobId, service)],
                     tasks := (tasks s)(jobId \<mapsto> Await_primary)\<rparr>
              else call_fallback jobId s))"

text \<open>
  \<^verbatim>\<open>
  async cancelJob(jobId) {
    const queueIndex = this.queue.findIndex(job => job.id === jobId);
    if (queueIndex !== -1) {
      this.queue.splice(queueIndex, 1);
      return true;
    }
    const processingJob = this.processing.get(jobId);
    if (processingJob) {
      processingJob.status = 'cancelled';
      return true;
    }
    return false;
  }
  \<close>
\<close>

fun findIndex :: "('a \<Rightarrow> bool) \<Rightarrow> 'a list \<Rightarrow> nat option" where
  "findIndex P [] = None"
| "findIndex P (x # xs) =
     (if P x then Some 0 else map_option Suc (findIndex P xs))"

definition cancelJob :: "string \<Rightarrow> queue_state \<Rightarrow> bool \<times> queue_state" where
  "cancelJob jobId s =
     (case findIndex (\<lambda>job. job_id job = jobId) (queue s) of
        Some queueIndex \<Rightarrow>
          (True, s\<lparr>queue := take queueIndex (queue s) @ drop (Suc queueIndex) (queue s),
                   released := released s @ [queue s ! queueIndex]\<rparr>)
      | None \<Rightarrow>
          (case map_of (processing s) jobId of
             Some processingJob \<Rightarrow>
               (True, s\<lparr>processing :=
                          AList.update jobId (processingJob\<lparr>status := Cancelled\<rparr>) (processing s)\<rparr>)
           | None \<Rightarrow> (False, s)))"

subsection \<open>Events\<close>

text \<open>
  What reaches the queue object from outside, one event per turn of the event loop: a
  submission, the one-second timer, a cancel request, and the callbacks and settlements of
  the operations a running job awaits. Each settlement runs \<open>processJob\<close> from the await
  it resolves to the next one:
  \<^verbatim>\<open>
      await this.updateJobProgress(job, 'processing', 'in_progress', 0);
      const processedAudio = await this.processAudio(job);
      await this.updateJobProgress(job, 'processing', 'completed', 100);
      await this.updateJobProgress(job, 'transcription', 'in_progress', 0);
      const transcriptionResult = await this.transcribeAudio(job, processedAudio);
      await this.updateJobProgress(job, 'transcription', 'completed', 100);
      await this.updateJobProgress(job, 'diarization', 'in_progress', 0);
      const diarizedResult = await this.performSpeakerDiarization(job, processedAudio, transcriptionResult);
      await this.updateJobProgress(job, 'diarization', 'completed', 100);
      await this.updateJobProgress(job, 'finalization', 'in_progress', 0);
      const finalResult = await this.finalizeTranscription(job, diarizedResult);
      await this.updateJobProgress(job, 'finalization', 'completed', 100);
      job.status = 'completed';
  \<close>
  An exception at any await leaves \<open>processJob\<close> and is handled in \<open>processQueue\<close>.
  The ffmpeg progress handler reports \<open>Math.round(progress.percent || 0)\<close>.
  \<open>SpeakerDiarizationService.process\<close> rethrows a failure of the clustering as
  \<open>new Error(`Speaker diarization failed: ${error.message}`)\<close>, and
  \<open>performSpeakerDiarization\<close> does not catch it. An event that does not match the await
  point of its job changes nothing.
\<close>

datatype event =
  Submit string "string option"
| Tick
| Cancel string
| Ffmpeg_progress string "real option"
| Ffmpeg_end string
| Ffmpeg_error string string
| Provider_progress string real
| Provider_result string
| Provider_error string string
| Diarization_progress string real
| Diarization_result string
| Diarization_error string string
| Save_done string
| Save_error string string

definition awaiting_provider :: "queue_state \<Rightarrow> string \<Rightarrow> bool" where
  "awaiting_provider s jobId =
     (tasks s jobId = Some Await_primary \<or> tasks s jobId = Some Await_fallback)"

fun step :: "event \<Rightarrow> queue_state \<Rightarrow> queue_state" where
  "step (Submit jobId service) s = addJob jobId service s"
| "step Tick s = processQueue s"
| "step (Cancel jobId) s = snd (cancelJob jobId s)"
| "step (Ffmpeg_progress jobId percent) s =
     (if tasks s jobId = Some Await_audio
      then progress_update jobId Processing In_progress
             (of_int (js_round (case percent of None \<Rightarrow> 0 | Some p \<Rightarrow> p))) s
      else s)"
| "step (Ffmpeg_end jobId) s =
     (if tasks s jobId = Some Await_audio
      then transcribeAudio jobId
             (progress_update jobId Transcription In_progress 0
               (progress_update jobId Processing Stage_completed 100 s))
      else s)"
| "step (Ffmpeg_error jobId message) s =
     (if tasks s jobId = Some Await_audio then job_throws jobId message s else s)"
| "step (Provider_progress jobId p) s =
     (if awaiting_provider s jobId
      then progress_update jobId Transcription In_progress p s
      else s)"
| "step (Provider_result jobId) s =
     (if awaiting_provider s jobId
      then (let s1 = progress_update jobId Diarization In_progress 0
                       (progress_update jobId Transcription Stage_completed 100 s)
            in s1\<lparr>tasks := (tasks s1)(jobId \<mapsto> Await_diarization)\<rparr>)
      else s)"
| "step (Provider_error jobId message) s =
     (if tasks s jobId = Some Await_primary then call_fallback jobId s
      else if tasks s jobId = Some Await_fallback then job_throws jobId message s
      else s)"
| "step (Diarization_progress jobId p) s =
     (if tasks s jobId = Some Await_diarization
      then progress_update jobId Diarization In_progress p s
      else s)"
| "step (Diarization_result jobId) s =
     (if tasks s jobId = Some Await_diarization
      then (let s1 = progress_update jobId Finalization In_progress 0
                       (progress_update jobId Diarization Stage_completed 100 s)
            in s1\<lparr>tasks := (tasks s1)(jobId \<mapsto> Await_save)\<rparr>)
      else s)"
| "step (Diarization_error jobId message) s =
     (if tasks s jobId = Some Await_diarization
      then job_throws jobId (''Speaker diarization failed: '' @ message) s
      else s)"
| "step (Save_done jobId) s =
     (if tasks s jobId = Some Await_save then job_returns jobId s else s)"
| "step (Save_error jobId message) s =
     (if tasks s jobId = Some Await_save then job_throws jobId message s else s)"

fun run :: "event list \<Rightarrow> queue_state \<Rightarrow> queue_state" where
  "run [] s = s"
| "run (e # es) s = run es (step e s)"

text \<open>
  The ids handed out by \<open>uuidv4()\<close> are taken to be fresh: a submission carries an id
  that no job known to the queue has. Nothing else is asked of an event sequence.
\<close>

definition known_ids :: "queue_state \<Rightarrow> string set" where
  "known_ids s = set (map job_id (queue s)) \<union> set (map fst (processing s))
                  \<union> set (map job_id (released s))"

fun fresh_ids :: "event list \<Rightarrow> queue_state \<Rightarrow> bool" where
  "fresh_ids [] s = True"
| "fresh_ids (Submit jobId service # es) s =
     (jobId \<notin> known_ids s \<and> fresh_ids es (step (Submit jobId service) s))"
| "fresh_ids (e # es) s = fresh_ids es (step e s)"

definition overall_progress :: "emitted_event list \<Rightarrow> int list" where
  "overall_progress evs =
     concat (map (\<lambda>e. case e of Job_progress jobId stageName st p overall \<Rightarrow> [overall] | _ \<Rightarrow> []) evs)"

subsection \<open>Predicates over scheduler states and event sequences\<close>

text \<open>The ids waiting in the queue and the keys of the \<open>processing\<close> Map.\<close>

definition qids :: "queue_state \<Rightarrow> string list" where
  "qids s = map job_id (queue s)"

definition keys :: "queue_state \<Rightarrow> string list" where
  "keys s = map fst (processing s)"

definition containers_ok :: "queue_state \<Rightarrow> bool" where
  "containers_ok s \<longleftrightarrow>
     distinct (qids s) \<and> distinct (keys s) \<and> set (qids s) \<inter> set (keys s) = {}
     \<and> int (length (keys s)) \<le> max 0 (maxConcurrent s)"

text \<open>
  Every job object the queue has ever held: waiting, running, or gone. A progress report
  is in range when the value it passes to \<open>updateJobProgress\<close> lies in \<open>[0, 100]\<close>.
\<close>

definition all_jobs :: "queue_state \<Rightarrow> job set" where
  "all_jobs s = set (queue s) \<union> snd ` set (processing s) \<union> set (released s)"

fun report_in_range :: "event \<Rightarrow> bool" where
  "report_in_range (Ffmpeg_progress jobId percent) =
     (case percent of None \<Rightarrow> True | Some p \<Rightarrow> 0 \<le> js_round p \<and> js_round p \<le> 100)"
| "report_in_range (Provider_progress jobId p) = (0 \<le> p \<and> p \<le> 100)"
| "report_in_range (Diarization_progress jobId p) = (0 \<le> p \<and> p \<le> 100)"
| "report_in_range e = True"

definition job_ok :: "job \<Rightarrow> bool" where
  "job_ok job \<longleftrightarrow>
     (\<forall>stageName. 0 \<le> st_progress (stages job stageName) \<and> st_progress (stages job stageName) \<le> 100)
     \<and> 0 \<le> progress job \<and> progress job \<le> 100"

definition progress_ok :: "queue_state \<Rightarrow> bool" where
  "progress_ok s \<longleftrightarrow>
     (\<forall>job \<in> all_jobs s. job_ok job)
     \<and> (\<forall>n \<in> set (overall_progress (emitted s)). 0 \<le> n \<and> n \<le> 100)"

text \<open>
  The overall progress values that a sequence of \<open>updateJobProgress\<close> calls on one job
  emits, and the sequences in which no call lowers the progress of its stage.
\<close>

fun reported :: "job \<Rightarrow> (stage \<times> stage_status \<times> real) list \<Rightarrow> int list" where
  "reported job [] = []"
| "reported job ((stageName, st, p) # updates) =
     progress (updateJobProgress job stageName st p)
       # reported (updateJobProgress job stageName st p) updates"

fun raising :: "job \<Rightarrow> (stage \<times> stage_status \<times> real) list \<Rightarrow> bool" where
  "raising job [] = True"
| "raising job ((stageName, st, p) # updates) =
     (st_progress (stages job stageName) \<le> p
      \<and> raising (updateJobProgress job stageName st p) updates)"

text \<open>
  The calls that follow the first one of a job sent to Whisper with a small file and no
  failure: a transcode report of 40, the callbacks of \<open>WhisperService.transcribe\<close> and
  of \<open>SpeakerDiarizationService.process\<close>, and the stage transitions of
  \<open>processJob\<close>.
\<close>

definition after_admission :: "(stage \<times> stage_status \<times> real) list" where
  "after_admission =
     [(Processing, In_progress, 40), (Processing, Stage_completed, 100),
      (Transcription, In_progress, 0), (Transcription, In_progress, 5),
      (Transcription, In_progress, 10), (Transcription, In_progress, 20),
      (Transcription, In_progress, 30), (Transcription, In_progress, 80),
      (Transcription, In_progress, 100), (Transcription, Stage_completed, 100),
      (Diarization, In_progress, 0), (Diarization, In_progress, 5),
      (Diarization, In_progress, 20), (Diarization, In_progress, 60),
      (Diarization, In_progress, 80), (Diarization, In_progress, 90),
      (Diarization, In_progress, 100), (Diarization, Stage_completed, 100),
      (Finalization, In_progress, 0), (Finalization, Stage_completed, 100)]"

text \<open>The callbacks and settlements that belong to the pipeline of one job.\<close>

fun concerns :: "event \<Rightarrow> string \<Rightarrow> bool" where
  "concerns (Submit j service) jobId = False"
| "concerns Tick jobId = False"
| "concerns (Cancel j) jobId = False"
| "concerns (Ffmpeg_progress j percent) jobId = (j = jobId)"
| "concerns (Ffmpeg_end j) jobId = (j = jobId)"
| "concerns (Ffmpeg_error j message) jobId = (j = jobId)"
| "concerns (Provider_progress j p) jobId = (j = jobId)"
| "concerns (Provider_result j) jobId = (j = jobId)"
| "concerns (Provider_error j message) jobId = (j = jobId)"
| "concerns (Diarization_progress j p) jobId = (j = jobId)"
| "concerns (Diarization_result j) jobId = (j = jobId)"
| "concerns (Diarization_error j message) jobId = (j = jobId)"
| "concerns (Save_done j) jobId = (j = jobId)"
| "concerns (Save_error j message) jobId = (j = jobId)"

text \<open>
  The events that settle the provider call a job awaits; the names of the providers
  called for one job, in order; and the state of a job that awaits its fallback call:
  held by the \<open>processing\<close> Map under its id, absent from the queue, with the given calls
  made for it so far.
\<close>

fun settles :: "event \<Rightarrow> string \<Rightarrow> bool" where
  "settles (Provider_result j) jobId = (j = jobId)"
| "settles (Provider_error j message) jobId = (j = jobId)"
| "settles e jobId = False"

definition calls_of :: "string \<Rightarrow> (string \<times> string) list \<Rightarrow> string list" where
  "calls_of jobId calls = map snd (filter (\<lambda>(j, name). j = jobId) calls)"

definition awaiting_fallback :: "string \<Rightarrow> string \<Rightarrow> string list \<Rightarrow> queue_state \<Rightarrow> bool" where
  "awaiting_fallback jobId ident calls s \<longleftrightarrow>
     tasks s jobId = Some Await_fallback
     \<and> map_option job_id (map_of (processing s) jobId) = Some ident
     \<and> jobId \<notin> set (qids s)
     \<and> calls_of jobId (provider_calls s) = calls"

subsection \<open>Example runs\<close>

text \<open>
  Five submissions under \<open>MAX_CONCURRENT_JOBS=2\<close>, followed by three ticks.
\<close>

definition five_jobs :: "event list" where
  "five_jobs = [Submit ''a'' None, Submit ''b'' (Some ''google''), Submit ''c'' None,
                Submit ''d'' None, Submit ''e'' None, Tick, Tick, Tick]"

text \<open>
  A job whose transcode reports 50 percent and whose provider reports 30; and a job whose
  transcode reports 1000 percent (ffmpeg derives the figure from the probed duration and
  does not clamp it).
\<close>

definition half_way :: "event list" where
  "half_way = [Submit ''a'' None, Tick, Ffmpeg_progress ''a'' (Some 50), Ffmpeg_end ''a'',
               Provider_progress ''a'' 30]"

definition over_report :: "event list" where
  "over_report = [Submit ''a'' None, Tick, Ffmpeg_progress ''a'' (Some 1000)]"

text \<open>
  \<open>WhisperService.transcribe\<close> calls \<open>progressCallback\<close> with 5, 10, 20 and 30 before it
  sends the request, and with 80 and 100 after the response. In the run below the
  request of the primary Whisper call fails, and the fallback call starts over.
\<close>

definition whisper_reports_until_api :: "real list" where
  "whisper_reports_until_api = [5, 10, 20, 30]"

definition fallback_restart :: "event list" where
  "fallback_restart =
     [Submit ''a'' None, Tick, Ffmpeg_end ''a'']
     @ map (Provider_progress ''a'') whisper_reports_until_api
     @ [Provider_error ''a'' ''Whisper transcription failed: timeout'']
     @ map (Provider_progress ''a'') whisper_reports_until_api"

text \<open>A Google job whose primary call and whose Whisper fallback both throw.\<close>

definition google_called :: "event list" where
  "google_called = [Submit ''a'' (Some ''google''), Tick, Ffmpeg_end ''a'']"

text \<open>
  Between the two failures the fallback call reports progress, another job is submitted
  and admitted, and the job is cancelled.
\<close>

definition mid_fallback :: "event list" where
  "mid_fallback = [Provider_progress ''a'' 5, Submit ''b'' None, Tick, Provider_progress ''a'' 10,
                   Cancel ''a'']"

definition two_failures_apart :: "event list" where
  "two_failures_apart =
     google_called @ Provider_error ''a'' ''quota exceeded'' # mid_fallback
       @ [Provider_error ''a'' ''Whisper transcription failed: timeout'']"

text \<open>A job whose diarization throws.\<close>

definition until_diarization :: "event list" where
  "until_diarization = [Submit ''a'' None, Tick, Ffmpeg_end ''a'', Provider_result ''a'']"

definition diarization_throws :: "event list" where
  "diarization_throws = until_diarization @ [Diarization_error ''a'' ''no text'']"

text \<open>
  A job that is cancelled while its transcription request is in flight and whose
  remaining stages all succeed.
\<close>

definition until_transcription :: "event list" where
  "until_transcription = [Submit ''a'' None, Tick, Ffmpeg_end ''a'']"

definition cancelled_while_running :: "event list" where
  "cancelled_while_running =
     until_transcription @ [Cancel ''a'', Provider_result ''a'', Diarization_result ''a'', Save_done ''a'']"

section \<open>Speaker clustering\<close>

subsection \<open>Feature vectors and distance\<close>

text \<open>
  The clustering reads a feature object only through the five keys of \<open>featureKeys\<close> and
  through \<open>segmentId\<close>; a centroid is an object with exactly those five keys. The other
  fields that \<open>extractAudioFeatures\<close> writes are not read by the clustering and are left
  out.
  \<^verbatim>\<open>
  calculateDistance(feature1, feature2) {
    const featureKeys = ['duration', 'speechRate', 'pitch', 'energy', 'spectralCentroid'];
    let sumSquaredDiffs = 0;
    featureKeys.forEach(key => {
      const diff = feature1[key] - feature2[key];
      sumSquaredDiffs += diff * diff;
    });
    return Math.sqrt(sumSquaredDiffs);
  }
  \<close>
\<close>

datatype featureKey = Duration | SpeechRate | Pitch | Energy | SpectralCentroid

definition featureKeys :: "featureKey list" where
  "featureKeys = [Duration, SpeechRate, Pitch, Energy, SpectralCentroid]"

type_synonym centroid = "featureKey \<Rightarrow> real"

record feature =
  segmentId :: nat
  fvalue :: "featureKey \<Rightarrow> real"

definition calculateDistance :: "(featureKey \<Rightarrow> real) \<Rightarrow> (featureKey \<Rightarrow> real) \<Rightarrow> real" where
  "calculateDistance feature1 feature2 =
     sqrt (fold (\<lambda>key sumSquaredDiffs.
                   sumSquaredDiffs + (feature1 key - feature2 key) * (feature1 key - feature2 key))
             featureKeys 0)"

subsection \<open>Random centroids\<close>

text \<open>
  \<open>Math.random()\<close> is the only source of nondeterminism. It is modelled as a sequence of
  draws \<open>rnd 0, rnd 1, ...\<close> together with the number of draws made so far, which every
  function that draws returns updated.
  \<^verbatim>\<open>
  initializeCentroids(features, k) {
    const centroids = [];
    for (let i = 0; i < k; i++) {
      const centroid = {};
      featureKeys.forEach(key => {
        const values = features.map(f => f[key]);
        const min = Math.min(...values);
        const max = Math.max(...values);
        centroid[key] = min + Math.random() * (max - min);
      });
      centroids.push(centroid);
    }
    return centroids;
  }
  \<close>
  For an empty feature list the source computes with \<open>Infinity\<close> and gets \<open>NaN\<close>
  coordinates, which the reals do not have; they stand as 0 here. With no features no
  function below reads a centroid coordinate.
\<close>

definition math_min :: "real list \<Rightarrow> real" where
  "math_min values = (case values of [] \<Rightarrow> 0 | v # vs \<Rightarrow> fold min vs v)"

definition math_max :: "real list \<Rightarrow> real" where
  "math_max values = (case values of [] \<Rightarrow> 0 | v # vs \<Rightarrow> fold max vs v)"

definition random_centroid :: "(nat \<Rightarrow> real) \<Rightarrow> nat \<Rightarrow> feature list \<Rightarrow> centroid \<times> nat" where
  "random_centroid rnd pos features =
     fold (\<lambda>key (centroid, drawn).
             (let values = map (\<lambda>f. fvalue f key) features;
                  mn = math_min values;
                  mx = math_max values
              in (centroid(key := mn + rnd drawn * (mx - mn)), Suc drawn)))
       featureKeys (\<lambda>key. 0, pos)"

fun initializeCentroids ::
  "(nat \<Rightarrow> real) \<Rightarrow> nat \<Rightarrow> feature list \<Rightarrow> nat \<Rightarrow> centroid list \<times> nat" where
  "initializeCentroids rnd pos features 0 = ([], pos)"
| "initializeCentroids rnd pos features (Suc k) =
     (let (centroid, drawn) = random_centroid rnd pos features;
          (centroids, drawn') = initializeCentroids rnd drawn features k
      in (centroid # centroids, drawn'))"

subsection \<open>k-means\<close>

text \<open>
  \<^verbatim>\<open>
  findNearestCentroid(feature, centroids) {
    let nearestIndex = 0;
    let minDistance = this.calculateDistance(feature, centroids[0]);
    for (let i = 1; i < centroids.length; i++) {
      const distance = this.calculateDistance(feature, centroids[i]);
      if (distance < minDistance) { minDistance = distance; nearestIndex = i; }
    }
    return nearestIndex;
  }
  \<close>
  With no centroid at all \<open>centroids[0]\<close> is \<open>undefined\<close> and \<open>calculateDistance\<close>
  throws a TypeError; \<open>kMeansClustering\<close> below returns \<open>None\<close> in that case and calls
  this function with a non-empty list only.
\<close>

fun nearest_loop :: "(featureKey \<Rightarrow> real) \<Rightarrow> centroid list \<Rightarrow> nat \<Rightarrow> nat \<Rightarrow> real \<Rightarrow> nat" where
  "nearest_loop v [] i nearestIndex minDistance = nearestIndex"
| "nearest_loop v (c # cs) i nearestIndex minDistance =
     (let distance = calculateDistance v c
      in if distance < minDistance then nearest_loop v cs (Suc i) i distance
         else nearest_loop v cs (Suc i) nearestIndex minDistance)"

definition findNearestCentroid :: "(featureKey \<Rightarrow> real) \<Rightarrow> centroid list \<Rightarrow> nat" where
  "findNearestCentroid v centroids =
     nearest_loop v (tl centroids) 1 0 (calculateDistance v (hd centroids))"

text \<open>
  \<^verbatim>\<open>
  updateCentroids(features, assignments, k) {
    const newCentroids = [];
    for (let i = 0; i < k; i++) {
      const clusterFeatures = features.filter((_, idx) => assignments[idx] === i);
      if (clusterFeatures.length === 0) {
        newCentroids.push(this.initializeCentroids(features, 1)[0]);
        continue;
      }
      const centroid = {};
      featureKeys.forEach(key => {
        const sum = clusterFeatures.reduce((acc, f) => acc + f[key], 0);
        centroid[key] = sum / clusterFeatures.length;
      });
      newCentroids.push(centroid);
    }
    return newCentroids;
  }
  \<close>
  \<open>assignments\<close> starts as \<open>new Array(features.length)\<close>, every entry \<open>undefined\<close>.
\<close>

definition members :: "feature list \<Rightarrow> nat option list \<Rightarrow> nat \<Rightarrow> feature list" where
  "members features assignments i =
     map fst (filter (\<lambda>(f, a). a = Some i) (zip features assignments))"

definition updateCentroids ::
  "(nat \<Rightarrow> real) \<Rightarrow> nat \<Rightarrow> feature list \<Rightarrow> nat option list \<Rightarrow> nat \<Rightarrow> centroid list \<times> nat" where
  "updateCentroids rnd pos features assignments k =
     fold (\<lambda>i (newCentroids, drawn).
             (let clusterFeatures = members features assignments i
              in if length clusterFeatures = 0
                 then (let (centroid, drawn') = random_centroid rnd drawn features
                       in (newCentroids @ [centroid], drawn'))
                 else (newCentroids
                         @ [\<lambda>key. sum_list (map (\<lambda>f. fvalue f key) clusterFeatures)
                                     / real (length clusterFeatures)],
                       drawn)))
       [0 ..< k] ([], pos)"

text \<open>
  \<^verbatim>\<open>
  centroidsConverged(oldCentroids, newCentroids, tolerance) {
    for (let i = 0; i < oldCentroids.length; i++) {
      const distance = this.calculateDistance(oldCentroids[i], newCentroids[i]);
      if (distance > tolerance) return false;
    }
    return true;
  }
  \<close>
  Both lists have \<open>k\<close> entries.
\<close>

definition centroidsConverged :: "centroid list \<Rightarrow> centroid list \<Rightarrow> real \<Rightarrow> bool" where
  "centroidsConverged oldCentroids newCentroids tolerance =
     list_all (\<lambda>(old, new). \<not> calculateDistance old new > tolerance) (zip oldCentroids newCentroids)"

text \<open>
  \<^verbatim>\<open>
  kMeansClustering(features, k) {
    const maxIterations = 100;
    const tolerance = 0.001;
    let centroids = this.initializeCentroids(features, k);
    let assignments = new Array(features.length);
    for (let iter = 0; iter < maxIterations; iter++) {
      let changed = false;
      for (let i = 0; i < features.length; i++) {
        const nearestCentroid = this.findNearestCentroid(features[i], centroids);
        if (assignments[i] !== nearestCentroid) { assignments[i] = nearestCentroid; changed = true; }
      }
      const newCentroids = this.updateCentroids(features, assignments, k);
      if (!changed || this.centroidsConverged(centroids, newCentroids, tolerance)) break;
      centroids = newCentroids;
    }
    const clusters = [];
    for (let i = 0; i < k; i++) {
      const clusterFeatures = features.filter((_, idx) => assignments[idx] === i);
      clusters.push({ id: i, centroid: centroids[i], features: clusterFeatures,
                      size: clusterFeatures.length });
    }
    return clusters;
  }
  \<close>
  The iteration is bounded by \<open>maxIterations\<close>; the first argument of \<open>iterate\<close> counts the
  iterations that remain.
\<close>

definition assign_point ::
  "centroid list \<Rightarrow> feature list \<Rightarrow> nat \<Rightarrow> nat option list \<times> bool \<Rightarrow> nat option list \<times> bool" where
  "assign_point centroids features i =
     (\<lambda>(assignments, changed).
        (let nearestCentroid = findNearestCentroid (fvalue (features ! i)) centroids
         in if assignments ! i \<noteq> Some nearestCentroid
            then (assignments[i := Some nearestCentroid], True)
            else (assignments, changed)))"

fun iterate ::
  "nat \<Rightarrow> (nat \<Rightarrow> real) \<Rightarrow> feature list \<Rightarrow> nat \<Rightarrow> centroid list \<Rightarrow> nat option list \<Rightarrow> nat
   \<Rightarrow> centroid list \<times> nat option list \<times> nat" where
  "iterate 0 rnd features k centroids assignments pos = (centroids, assignments, pos)"
| "iterate (Suc remaining) rnd features k centroids assignments pos =
     (let (assignments', changed) =
            fold (assign_point centroids features) [0 ..< length features] (assignments, False);
          (newCentroids, drawn) = updateCentroids rnd pos features assignments' k
      in if \<not> changed \<or> centroidsConverged centroids newCentroids (1 / 1000)
         then (centroids, assignments', drawn)
         else iterate remaining rnd features k newCentroids assignments' drawn)"

record cluster =
  cl_id :: nat
  cl_centroid :: centroid
  cl_features :: "feature list"
  cl_size :: nat

definition kMeansClustering ::
  "(nat \<Rightarrow> real) \<Rightarrow> nat \<Rightarrow> feature list \<Rightarrow> nat \<Rightarrow> (cluster list \<times> nat) option" where
  "kMeansClustering rnd pos features k =
     (if k = 0 \<and> features \<noteq> [] then None
      else
        (let (centroids0, drawn0) = initializeCentroids rnd pos features k;
             (centroids, assignments, drawn) =
               iterate 100 rnd features k centroids0 (replicate (length features) None) drawn0
         in Some (map (\<lambda>i. \<lparr>cl_id = i,
                               cl_centroid = centroids ! i,
                               cl_features = members features assignments i,
                               cl_size = length (members features assignments i)\<rparr>)
                    [0 ..< k],
                  drawn)))"

subsection \<open>Silhouette score and the choice of k\<close>

text \<open>
  \<^verbatim>\<open>
  evaluateClusterQuality(clusters, features) {
    let totalSilhouette = 0;
    let totalPoints = 0;
    clusters.forEach((cluster, clusterIdx) => {
      cluster.features.forEach(feature => {
        const a = this.averageIntraClusterDistance(feature, cluster);
        const b = this.nearestClusterDistance(feature, clusters, clusterIdx);
        const silhouette = b !== 0 ? (b - a) / Math.max(a, b) : 0;
        totalSilhouette += silhouette;
        totalPoints++;
      });
    });
    return totalPoints > 0 ? totalSilhouette / totalPoints : 0;
  }
  averageIntraClusterDistance(feature, cluster) {
    if (cluster.features.length <= 1) return 0;
    let totalDistance = 0;
    let count = 0;
    cluster.features.forEach(otherFeature => {
      if (otherFeature.segmentId !== feature.segmentId) {
        totalDistance += this.calculateDistance(feature, otherFeature);
        count++;
      }
    });
    return count > 0 ? totalDistance / count : 0;
  }
  nearestClusterDistance(feature, clusters, excludeClusterIdx) {
    let minDistance = Infinity;
    clusters.forEach((cluster, clusterIdx) => {
      if (clusterIdx !== excludeClusterIdx) {
        cluster.features.forEach(otherFeature => {
          const distance = this.calculateDistance(feature, otherFeature);
          minDistance = Math.min(minDistance, distance);
        });
      }
    });
    return minDistance === Infinity ? 0 : minDistance;
  }
  \<close>
  \<open>Infinity\<close> as the start of the minimum is \<open>None\<close>.
\<close>

definition averageIntraClusterDistance :: "feature \<Rightarrow> cluster \<Rightarrow> real" where
  "averageIntraClusterDistance feature cluster =
     (if length (cl_features cluster) \<le> 1 then 0
      else
        (let others = filter (\<lambda>otherFeature. segmentId otherFeature \<noteq> segmentId feature)
                        (cl_features cluster);
             totalDistance =
               sum_list (map (\<lambda>otherFeature. calculateDistance (fvalue feature) (fvalue otherFeature))
                           others);
             count = length others
         in if count > 0 then totalDistance / real count else 0))"

definition nearestClusterDistance :: "feature \<Rightarrow> cluster list \<Rightarrow> nat \<Rightarrow> real" where
  "nearestClusterDistance feature clusters excludeClusterIdx =
     (let minDistance =
            fold (\<lambda>(clusterIdx, cluster) minDistance.
                    if clusterIdx \<noteq> excludeClusterIdx
                    then fold (\<lambda>otherFeature minDistance.
                                 (let distance = calculateDistance (fvalue feature) (fvalue otherFeature)
                                  in case minDistance of
                                       None \<Rightarrow> Some distance
                                     | Some m \<Rightarrow> Some (min m distance)))
                           (cl_features cluster) minDistance
                    else minDistance)
              (enumerate 0 clusters) None
      in case minDistance of None \<Rightarrow> 0 | Some m \<Rightarrow> m)"

definition silhouettes :: "cluster list \<Rightarrow> real list" where
  "silhouettes clusters =
     concat (map (\<lambda>(clusterIdx, cluster).
                    map (\<lambda>feature.
                           (let a = averageIntraClusterDistance feature cluster;
                                b = nearestClusterDistance feature clusters clusterIdx
                            in if b \<noteq> 0 then (b - a) / max a b else 0))
                      (cl_features cluster))
               (enumerate 0 clusters))"

definition evaluateClusterQuality :: "cluster list \<Rightarrow> feature list \<Rightarrow> real" where
  "evaluateClusterQuality clusters features =
     (let totalSilhouette = sum_list (silhouettes clusters);
          totalPoints = length (silhouettes clusters)
      in if totalPoints > 0 then totalSilhouette / real totalPoints else 0)"

text \<open>
  \<^verbatim>\<open>
  findOptimalClusters(features, minK, maxK) {
    let bestClusters = null;
    let bestScore = -Infinity;
    for (let k = minK; k <= maxK; k++) {
      const clusters = this.kMeansClustering(features, k);
      const score = this.evaluateClusterQuality(clusters, features);
      if (score > bestScore) { bestScore = score; bestClusters = clusters; }
    }
    return bestClusters || this.kMeansClustering(features, 2);
  }
  \<close>
  \<open>bestClusters\<close> and \<open>bestScore\<close> are assigned together: \<open>None\<close> is the pair
  \<open>(null, -Infinity)\<close>, below which every score lies.
\<close>

definition better :: "real \<Rightarrow> (cluster list \<times> real) option \<Rightarrow> bool" where
  "better score best = (case best of None \<Rightarrow> True | Some (bestClusters, bestScore) \<Rightarrow> score > bestScore)"

fun optimal_loop ::
  "(nat \<Rightarrow> real) \<Rightarrow> feature list \<Rightarrow> nat list \<Rightarrow> (cluster list \<times> real) option \<Rightarrow> nat
   \<Rightarrow> ((cluster list \<times> real) option \<times> nat) option" where
  "optimal_loop rnd features [] best pos = Some (best, pos)"
| "optimal_loop rnd features (k # ks) best pos =
     (case kMeansClustering rnd pos features k of
        None \<Rightarrow> None
      | Some (clusters, drawn) \<Rightarrow>
          (let score = evaluateClusterQuality clusters features
           in if better score best
              then optimal_loop rnd features ks (Some (clusters, score)) drawn
              else optimal_loop rnd features ks best drawn))"

definition findOptimalClusters ::
  "(nat \<Rightarrow> real) \<Rightarrow> nat \<Rightarrow> feature list \<Rightarrow> nat \<Rightarrow> nat \<Rightarrow> (cluster list \<times> nat) option" where
  "findOptimalClusters rnd pos features minK maxK =
     (case optimal_loop rnd features [minK ..< Suc maxK] None pos of
        None \<Rightarrow> None
      | Some (best, drawn) \<Rightarrow>
          (case best of
             Some (bestClusters, bestScore) \<Rightarrow> Some (bestClusters, drawn)
           | None \<Rightarrow> kMeansClustering rnd drawn features 2))"

text \<open>
  The runs that the specification speaks of: k-means once for each \<open>k\<close> of the list, in
  order, each run drawing after the previous one.
\<close>

fun kmeans_runs ::
  "(nat \<Rightarrow> real) \<Rightarrow> feature list \<Rightarrow> nat list \<Rightarrow> nat \<Rightarrow> (cluster list list \<times> nat) option" where
  "kmeans_runs rnd features [] pos = Some ([], pos)"
| "kmeans_runs rnd features (k # ks) pos =
     (case kMeansClustering rnd pos features k of
        None \<Rightarrow> None
      | Some (clusters, drawn) \<Rightarrow>
          map_option (\<lambda>(runs, drawn'). (clusters # runs, drawn')) (kmeans_runs rnd features ks drawn))"

text \<open>One turn of the loop of \<open>findOptimalClusters\<close> on a finished run.\<close>

definition keep_best ::
  "feature list \<Rightarrow> cluster list \<Rightarrow> (cluster list \<times> real) option \<Rightarrow> (cluster list \<times> real) option" where
  "keep_best features clusters best =
     (if better (evaluateClusterQuality clusters features) best
      then Some (clusters, evaluateClusterQuality clusters features)
      else best)"

text \<open>A cluster object reduced to its member list, which is all the score reads.\<close>

definition bare :: "feature list \<Rightarrow> cluster" where
  "bare fs = \<lparr>cl_id = 0, cl_centroid = (\<lambda>key. 0), cl_features = fs, cl_size = 0\<rparr>"

subsection \<open>Example features\<close>

text \<open>
  Four segments that differ in pitch only: two near 0 and two near 100. The draws are 0
  except for those that place the initial pitch of a centroid: at 0 and 99 for \<open>k = 2\<close>, at
  0, 1 and 99.5 for \<open>k = 3\<close>, at 0, 1, 99 and 99.9 for \<open>k = 4\<close>. All draws lie in \<open>[0, 1)\<close>.
\<close>

definition pitched :: "nat \<Rightarrow> real \<Rightarrow> feature" where
  "pitched n x = \<lparr>segmentId = n, fvalue = (\<lambda>key. if key = Pitch then x else 0)\<rparr>"

definition two_groups :: "feature list" where
  "two_groups = [pitched 0 0, pitched 1 1, pitched 2 99, pitched 3 100]"

definition draws :: "nat \<Rightarrow> real" where
  "draws n =
     (if n = 7 then 99 / 100
      else if n = 17 then 1 / 100
      else if n = 22 then 995 / 1000
      else if n = 32 then 1 / 100
      else if n = 37 then 99 / 100
      else if n = 42 then 999 / 1000
      else 0)"

text \<open>The member lists that the three runs end with.\<close>

definition groups2 :: "feature list list" where
  "groups2 = [[pitched 0 0, pitched 1 1], [pitched 2 99, pitched 3 100]]"

definition groups3 :: "feature list list" where
  "groups3 = [[pitched 0 0], [pitched 1 1], [pitched 2 99, pitched 3 100]]"

definition groups4 :: "feature list list" where
  "groups4 = [[pitched 0 0], [pitched 1 1], [pitched 2 99], [pitched 3 100]]"


section \<open>Properties of the segment functions\<close>

subsection \<open>Speech rate\<close>

lemma split_space_length: "length (split_space s) = Suc (count_list s (CHR '' ''))"
  by (induction s) (auto split: list.splits)

lemma split_space_nonempty: "split_space s \<noteq> []"
  by (induction s) (auto split: list.splits)

lemma js_divide_zero: "js_divide x 0 \<noteq> Finite r"
  by (simp add: js_divide_def)

text \<open>
  Claim C10. The speech-rate computation returns a finite number for every segment, never
  \<open>Infinity\<close>, \<open>-Infinity\<close> or \<open>NaN\<close>. For a segment whose duration \<open>end - start\<close> is not
  strictly positive it returns 0; where the duration is zero, the division of the word
  count by it, which the function does not make, would not have given a finite number.
  For a segment of positive duration it returns the word count divided by the duration,
  the word count being the length of the word list, or of the space-split text (one more
  than the number of spaces) when the segment has no word list.
\<close>

theorem speech_rate_total:
  "(\<exists>r. calculateSpeechRate s = Finite r)
   \<and> (seg_end s - seg_start s \<le> 0 \<longrightarrow> calculateSpeechRate s = Finite 0)
   \<and> (seg_end s - seg_start s = 0 \<longrightarrow>
        js_divide (real (wordCount s)) (seg_end s - seg_start s) \<noteq> Finite r')
   \<and> (seg_end s - seg_start s > 0 \<longrightarrow>
        calculateSpeechRate s = js_divide (real (wordCount s)) (seg_end s - seg_start s)
        \<and> (\<forall>ws. seg_words s = Some ws \<longrightarrow>
              calculateSpeechRate s = Finite (real (length ws) / (seg_end s - seg_start s)))
        \<and> (seg_words s = None \<longrightarrow>
              calculateSpeechRate s =
                Finite (real (length (split_space (seg_text s))) / (seg_end s - seg_start s))
              \<and> length (split_space (seg_text s)) = Suc (count_list (seg_text s) (CHR '' ''))))"
proof -
  let ?d = "seg_end s - seg_start s"
  have nonpos: "calculateSpeechRate s = Finite 0" if "?d \<le> 0"
    using that by (simp add: calculateSpeechRate_def Let_def)
  have pos: "calculateSpeechRate s = js_divide (real (wordCount s)) ?d"
    and fin: "js_divide (real (wordCount s)) ?d = Finite (real (wordCount s) / ?d)" if "?d > 0"
    using that by (simp_all add: calculateSpeechRate_def Let_def js_divide_def)
  have finite: "\<exists>r. calculateSpeechRate s = Finite r"
  proof (cases "?d > 0")
    case True
    then show ?thesis using pos fin by simp
  next
    case False
    then show ?thesis using nonpos by simp
  qed
  have zero: "js_divide (real (wordCount s)) ?d \<noteq> Finite r'" if "?d = 0"
    using that js_divide_zero [of "real (wordCount s)" r'] by simp
  have listed: "calculateSpeechRate s = Finite (real (length ws) / ?d)"
    if "?d > 0" "seg_words s = Some ws" for ws
    using that pos fin by (simp add: wordCount_def)
  have split: "calculateSpeechRate s = Finite (real (length (split_space (seg_text s))) / ?d)"
    if "?d > 0" "seg_words s = None"
    using that pos fin by (simp add: wordCount_def)
  show ?thesis
    using finite nonpos zero pos listed split split_space_length [of "seg_text s"]
    by blast
qed

theorem speech_rate_total_witness:
  "calculateSpeechRate ((ex_seg 3 3 ''satu dua'')\<lparr>seg_words := None\<rparr>) = Finite 0
   \<and> js_divide (real (wordCount ((ex_seg 3 3 ''satu dua'')\<lparr>seg_words := None\<rparr>))) 0
       = Pos_infinity
   \<and> calculateSpeechRate (ex_seg 5 3 ''satu dua'') = Finite 0
   \<and> calculateSpeechRate ((ex_seg 1 3 ''satu dua tiga'')\<lparr>seg_words := None\<rparr>) = Finite (3 / 2)
   \<and> calculateSpeechRate (ex_seg 1 3 ''satu dua tiga'') = Finite 0"
proof -
  have zero: "calculateSpeechRate ((ex_seg 3 3 ''satu dua'')\<lparr>seg_words := None\<rparr>) = Finite 0"
    using speech_rate_total [of "(ex_seg 3 3 ''satu dua'')\<lparr>seg_words := None\<rparr>" 0]
    by (simp add: ex_seg_def)
  have inf: "js_divide (real (wordCount ((ex_seg 3 3 ''satu dua'')\<lparr>seg_words := None\<rparr>))) 0
       = Pos_infinity"
    by (simp add: js_divide_def wordCount_def ex_seg_def)
  have negative: "calculateSpeechRate (ex_seg 5 3 ''satu dua'') = Finite 0"
    using speech_rate_total [of "ex_seg 5 3 ''satu dua''" 0]
    by (simp add: ex_seg_def)
  have split: "calculateSpeechRate ((ex_seg 1 3 ''satu dua tiga'')\<lparr>seg_words := None\<rparr>)
       = Finite (3 / 2)"
    using speech_rate_total [of "(ex_seg 1 3 ''satu dua tiga'')\<lparr>seg_words := None\<rparr>" 0]
    by (simp add: ex_seg_def js_divide_def wordCount_def)
  have listed: "calculateSpeechRate (ex_seg 1 3 ''satu dua tiga'') = Finite 0"
    using speech_rate_total [of "ex_seg 1 3 ''satu dua tiga''" 0]
    by (simp add: ex_seg_def js_divide_def wordCount_def)
  from zero inf negative split listed show ?thesis
    by (intro conjI)
qed

subsection \<open>Merging close segments\<close>

lemma absorb_spec_join: "absorb a b = spec_join a b"
  by (cases "seg_words a"; cases "seg_words b") (simp_all add: absorb_def spec_join_def)

lemma merge_loop_spec:
  "merge_loop g (pre @ [p]) xs = pre @ spec_merge g (p # xs)"
proof (induction xs arbitrary: pre p)
  case Nil
  show ?case by simp
next
  case (Cons c rest)
  show ?case
  proof (cases "seg_start c - seg_end p \<le> g")
    case True
    then show ?thesis
      using Cons.IH [of pre "absorb p c"] by (simp add: absorb_spec_join)
  next
    case False
    then show ?thesis
      using Cons.IH [of "pre @ [p]" c] by simp
  qed
qed

lemma mergeCloseSegments_spec: "mergeCloseSegments segs g = reindex (spec_merge g segs)"
proof (cases segs)
  case Nil
  then show ?thesis by (simp add: mergeCloseSegments_def reindex_def)
next
  case (Cons a rest)
  then show ?thesis
    using merge_loop_spec [of g "[]" a rest] by (simp add: mergeCloseSegments_def)
qed

lemma reindex_ids: "map seg_id (reindex xs) = [0 ..< length xs]"
  by (simp add: reindex_def enumerate_eq_zip map_zip_map comp_def case_prod_unfold)

lemma length_reindex: "length (reindex xs) = length xs"
  by (simp add: reindex_def)


text \<open>
  Claim C7. For every segment list the merge step equals the pairwise rule of the
  specification followed by re-indexing from 0: a neighbour whose gap
  \<open>next.start - previous.end\<close> is at most the threshold is combined with its predecessor
  into one segment from the first's start to the second's end, the texts joined by one
  space, the word lists appended in order, the confidence the mean of the two; a larger
  gap keeps the two apart. The resulting ids are \<open>0, 1, 2, ...\<close>. With threshold 1000 the
  segments \<open>0..5000\<close> and \<open>5500..9000\<close> become \<open>0..9000\<close>, and \<open>0..5000\<close> and
  \<open>6500..9000\<close> (a gap of 1500) stay separate.
\<close>

theorem merge_close_segments_rule:
  "mergeCloseSegments segs g = reindex (spec_merge g segs)
   \<and> map seg_id (mergeCloseSegments segs g) = [0 ..< length (mergeCloseSegments segs g)]
   \<and> (seg_start b - seg_end a \<le> g \<and> seg_words a = Some wa \<and> seg_words b = Some wb \<longrightarrow>
        mergeCloseSegments [a, b] g =
          [\<lparr>seg_id = 0, seg_start = seg_start a, seg_end = seg_end b,
            seg_text = seg_text a @ '' '' @ seg_text b,
            seg_confidence = (seg_confidence a + seg_confidence b) / 2,
            seg_words = Some (wa @ wb)\<rparr>])
   \<and> (seg_start b - seg_end a > g \<longrightarrow>
        mergeCloseSegments [a, b] g = [a\<lparr>seg_id := 0\<rparr>, b\<lparr>seg_id := 1\<rparr>])
   \<and> (seg_start a = 0 \<and> seg_end a = 5000 \<and> seg_start b = 5500 \<and> seg_end b = 9000 \<longrightarrow>
        map (\<lambda>m. (seg_start m, seg_end m)) (mergeCloseSegments [a, b] 1000) = [(0, 9000)])
   \<and> (seg_start a = 0 \<and> seg_end a = 5000 \<and> seg_start b = 6500 \<and> seg_end b = 9000 \<longrightarrow>
        map (\<lambda>m. (seg_start m, seg_end m)) (mergeCloseSegments [a, b] 1000)
          = [(0, 5000), (6500, 9000)])"
proof -
  have pair: "mergeCloseSegments [a, b] t =
      (if seg_start b - seg_end a \<le> t then [(spec_join a b)\<lparr>seg_id := 0\<rparr>]
       else [a\<lparr>seg_id := 0\<rparr>, b\<lparr>seg_id := 1\<rparr>])" for t
    by (simp add: mergeCloseSegments_spec reindex_def)
  have ids: "map seg_id (mergeCloseSegments segs g) = [0 ..< length (mergeCloseSegments segs g)]"
    by (simp add: mergeCloseSegments_spec reindex_ids length_reindex)
  show ?thesis
    using ids by (simp add: pair mergeCloseSegments_spec [of segs g] spec_join_def)
qed

theorem merge_close_segments_rule_witness:
  "mergeCloseSegments [ex_seg 0 5000 ''halo'', ex_seg 5500 9000 ''dunia''] 1000
     = [\<lparr>seg_id = 0, seg_start = 0, seg_end = 9000, seg_text = ''halo dunia'',
         seg_confidence = 1 / 2, seg_words = Some []\<rparr>]
   \<and> map (\<lambda>m. (seg_id m, seg_start m, seg_end m))
        (mergeCloseSegments [ex_seg 0 5000 ''halo'', ex_seg 6500 9000 ''dunia''] 1000)
     = [(0, 0, 5000), (1, 6500, 9000)]"
  using merge_close_segments_rule
    [of "[]" 1000 "ex_seg 5500 9000 ''dunia''" "ex_seg 0 5000 ''halo''" "[]" "[]"]
    merge_close_segments_rule
    [of "[]" 1000 "ex_seg 6500 9000 ''dunia''" "ex_seg 0 5000 ''halo''" "[]" "[]"]
  by (simp add: ex_seg_def)

subsection \<open>Smoothing speaker transitions\<close>

lemma length_smooth_at: "length (smooth_at i xs) = length xs"
  by (simp add: smooth_at_def Let_def)

lemma smooth_at_other: "j \<noteq> i \<Longrightarrow> smooth_at i xs ! j = xs ! j"
  by (simp add: smooth_at_def Let_def)

lemma length_smooth_upto: "length (fold smooth_at [Suc 0 ..< k] xs) = length xs"
  by (induction k) (simp_all add: length_smooth_at)

lemma smooth_upto_later: "k \<le> j \<Longrightarrow> fold smooth_at [Suc 0 ..< k] xs ! j = xs ! j"
  by (induction k) (simp_all add: smooth_at_other)

lemma smooth_upto_earlier:
  "j < k \<Longrightarrow> k \<le> m \<Longrightarrow>
   fold smooth_at [Suc 0 ..< m] xs ! j = fold smooth_at [Suc 0 ..< k] xs ! j"
proof (induction m)
  case 0
  then show ?case by simp
next
  case (Suc m)
  show ?case
  proof (cases "k = Suc m")
    case True
    then show ?thesis by simp
  next
    case False
    with Suc have "k \<le> m" by simp
    with Suc show ?thesis by (cases "Suc 0 \<le> m") (simp_all add: smooth_at_other)
  qed
qed

lemma smooth_upto_first: "fold smooth_at [Suc 0 ..< m] xs ! 0 = xs ! 0"
  by (induction m) (simp_all add: smooth_at_other)

lemma smooth_at_here:
  "i < length xs \<Longrightarrow>
   smooth_at i xs ! i =
     (if speaker (xs ! (i - Suc 0)) = speaker (xs ! Suc i)
         \<and> speaker (xs ! i) \<noteq> speaker (xs ! (i - Suc 0))
         \<and> seg_end (xs ! i) - seg_start (xs ! i) < 2
         \<and> speakerConfidence (xs ! i) < 8 / 10
      then (xs ! i)\<lparr>speaker := speaker (xs ! (i - Suc 0)), speakerConfidence := 6 / 10\<rparr>
      else xs ! i)"
  by (auto simp: smooth_at_def Let_def)

lemma smooth_interior:
  assumes "0 < i \<and> i + 1 < length segs"
  shows "smoothSpeakerTransitions segs ! i =
     (if speaker (smoothSpeakerTransitions segs ! (i - 1)) = speaker (segs ! (i + 1))
         \<and> speaker (segs ! i) \<noteq> speaker (smoothSpeakerTransitions segs ! (i - 1))
         \<and> seg_end (segs ! i) - seg_start (segs ! i) < 2
         \<and> speakerConfidence (segs ! i) < 8 / 10
      then (segs ! i)\<lparr>speaker := speaker (smoothSpeakerTransitions segs ! (i - 1)),
                       speakerConfidence := 6 / 10\<rparr>
      else segs ! i)"
proof -
  let ?n = "length segs - Suc 0"
  let ?mid = "fold smooth_at [Suc 0 ..< i] segs"
  have out: "smoothSpeakerTransitions segs = fold smooth_at [Suc 0 ..< ?n] segs"
    by (simp add: smoothSpeakerTransitions_def)
  have inner: "0 < i" "Suc i < length segs" using assms by simp_all
  have bound: "Suc i \<le> ?n" using inner by linarith
  have out_i: "smoothSpeakerTransitions segs ! i = fold smooth_at [Suc 0 ..< Suc i] segs ! i"
    unfolding out using bound by (intro smooth_upto_earlier) simp_all
  have step: "fold smooth_at [Suc 0 ..< Suc i] segs = smooth_at i ?mid"
    using inner by simp
  have out_prev: "smoothSpeakerTransitions segs ! (i - Suc 0) = ?mid ! (i - Suc 0)"
    unfolding out using inner bound by (intro smooth_upto_earlier) simp_all
  have mid_i: "?mid ! i = segs ! i"
    by (rule smooth_upto_later) simp
  have mid_next: "?mid ! Suc i = segs ! Suc i"
    by (rule smooth_upto_later) simp
  have len: "i < length ?mid"
    using inner by (simp add: length_smooth_upto)
  have suc: "i + 1 = Suc i" and pred: "i - 1 = i - Suc 0"
    by simp_all
  show ?thesis
    unfolding suc pred out_i step smooth_at_here [OF len] out_prev mid_i mid_next ..
qed

lemma smooth_border:
  assumes "i = 0 \<or> length segs \<le> i + 1"
  shows "smoothSpeakerTransitions segs ! i = segs ! i"
proof (cases "i = 0")
  case True
  then show ?thesis by (simp add: smoothSpeakerTransitions_def smooth_upto_first)
next
  case False
  with assms have "length segs - Suc 0 \<le> i" by simp
  then show ?thesis
    by (simp add: smoothSpeakerTransitions_def smooth_upto_later)
qed

text \<open>
  Claim C8, as amended. The smoothing pass keeps the length of the list and leaves the
  first and the last segment alone. Every inner segment is decided from left to right
  against its previous neighbour as already smoothed and its next neighbour as given: if
  those two share a speaker that differs from the segment's own, the segment is shorter
  than 2 seconds and its assignment confidence is below 0.8, it takes the previous
  neighbour's speaker with confidence 0.6; otherwise it is unchanged. A segment with
  confidence 0.8 or more is never changed.
\<close>

theorem smoothing_left_to_right:
  "length (smoothSpeakerTransitions segs) = length segs
   \<and> (i = 0 \<or> length segs \<le> i + 1 \<longrightarrow> smoothSpeakerTransitions segs ! i = segs ! i)
   \<and> (0 < i \<and> i + 1 < length segs \<longrightarrow>
        smoothSpeakerTransitions segs ! i =
          (if speaker (smoothSpeakerTransitions segs ! (i - 1)) = speaker (segs ! (i + 1))
              \<and> speaker (segs ! i) \<noteq> speaker (smoothSpeakerTransitions segs ! (i - 1))
              \<and> seg_end (segs ! i) - seg_start (segs ! i) < 2
              \<and> speakerConfidence (segs ! i) < 8 / 10
           then (segs ! i)\<lparr>speaker := speaker (smoothSpeakerTransitions segs ! (i - 1)),
                            speakerConfidence := 6 / 10\<rparr>
           else segs ! i))
   \<and> (speakerConfidence (segs ! i) \<ge> 8 / 10 \<longrightarrow> smoothSpeakerTransitions segs ! i = segs ! i)"
proof -
  have len: "length (smoothSpeakerTransitions segs) = length segs"
    by (simp add: smoothSpeakerTransitions_def length_smooth_upto)
  have keep: "smoothSpeakerTransitions segs ! i = segs ! i"
    if high: "speakerConfidence (segs ! i) \<ge> 8 / 10"
  proof (cases "0 < i \<and> i + 1 < length segs")
    case True
    have "\<not> speakerConfidence (segs ! i) < 8 / 10"
      using high by (simp only: not_less)
    then show ?thesis
      using smooth_interior [OF True] by (simp only: simp_thms if_False)
  next
    case False
    then have "i = 0 \<or> length segs \<le> i + 1" by auto
    then show ?thesis by (rule smooth_border)
  qed
  show ?thesis
    using len keep smooth_border [of i segs] smooth_interior [of i segs] by blast
qed

theorem smoothing_left_to_right_witness:
  "smoothSpeakerTransitions (flicker3 (1 / 2)) ! 1 = spk ''speaker_1'' 10 (23 / 2) (6 / 10)
   \<and> smoothSpeakerTransitions (flicker3 (9 / 10)) ! 1 = spk ''speaker_2'' 10 (23 / 2) (9 / 10)
   \<and> smoothSpeakerTransitions (flicker3 (1 / 2)) ! 0 = spk ''speaker_1'' 0 10 1"
  using smoothing_left_to_right [of "flicker3 (1 / 2)" 1]
    smoothing_left_to_right [of "flicker3 (9 / 10)" 1]
    smoothing_left_to_right [of "flicker3 (1 / 2)" 0]
  by (simp add: flicker3_def spk_def)

text \<open>
  Read on the input list, the rule of claim C8 fails: in five alternating short segments
  the middle one differs from both of its neighbours, which share a speaker, and its
  confidence is 0.5, yet the pass returns it unchanged, because its left neighbour has
  been reassigned before it is visited.
\<close>

theorem smoothing_input_neighbours_counterexample:
  "speaker (flicker5 ! 1) = speaker (flicker5 ! 3)
   \<and> speaker (flicker5 ! 2) \<noteq> speaker (flicker5 ! 1)
   \<and> speaker (flicker5 ! 2) \<noteq> speaker (flicker5 ! 3)
   \<and> seg_end (flicker5 ! 2) - seg_start (flicker5 ! 2) < 2
   \<and> speakerConfidence (flicker5 ! 2) < 8 / 10
   \<and> speaker (smoothSpeakerTransitions flicker5 ! 2) \<noteq> speaker (flicker5 ! 1)
   \<and> smoothSpeakerTransitions flicker5 ! 2 = flicker5 ! 2"
  by (simp add: flicker5_def spk_def smoothSpeakerTransitions_def smooth_at_def upt_rec)


section \<open>Properties of the transcription queue\<close>

subsection \<open>Stage weights and rounding\<close>

lemma totalProgress_unfold:
  "totalProgress stgs =
     (st_progress (stgs Upload) * 10 + st_progress (stgs Processing) * 10
      + st_progress (stgs Transcription) * 60 + st_progress (stgs Diarization) * 15
      + st_progress (stgs Finalization) * 5) / 100"
  by (simp add: totalProgress_def stage_names_def stageWeights_def add_divide_distrib)

lemma totalProgress_bounds:
  assumes "\<And>stageName. 0 \<le> st_progress (stgs stageName) \<and> st_progress (stgs stageName) \<le> 100"
  shows "0 \<le> totalProgress stgs \<and> totalProgress stgs \<le> 100"
proof -
  have "0 \<le> st_progress (stgs Upload) \<and> st_progress (stgs Upload) \<le> 100"
    "0 \<le> st_progress (stgs Processing) \<and> st_progress (stgs Processing) \<le> 100"
    "0 \<le> st_progress (stgs Transcription) \<and> st_progress (stgs Transcription) \<le> 100"
    "0 \<le> st_progress (stgs Diarization) \<and> st_progress (stgs Diarization) \<le> 100"
    "0 \<le> st_progress (stgs Finalization) \<and> st_progress (stgs Finalization) \<le> 100"
    using assms by blast+
  then show ?thesis
    unfolding totalProgress_unfold by simp
qed

lemma js_round_bounds: "0 \<le> x \<Longrightarrow> x \<le> 100 \<Longrightarrow> 0 \<le> js_round x \<and> js_round x \<le> 100"
  unfolding js_round_def by (simp add: floor_le_iff le_floor_iff)

lemma js_round_mono: "x \<le> y \<Longrightarrow> js_round x \<le> js_round y"
  unfolding js_round_def by (simp add: floor_mono)

lemma totalProgress_mono:
  assumes "st_progress (stgs stageName) \<le> p"
  shows "totalProgress stgs \<le> totalProgress (stgs(stageName := \<lparr>st_status = st, st_progress = p\<rparr>))"
  using assms unfolding totalProgress_unfold by (cases stageName) simp_all

lemma stage_names_all: "set stage_names = UNIV \<and> distinct stage_names"
proof -
  have "x \<in> set stage_names" for x
    by (cases x) (simp_all add: stage_names_def)
  then show ?thesis by (auto simp: stage_names_def)
qed

lemmas queue_defs = constructor_def addJob_def processQueue_def progress_update_def
  updateJobProgress_def totalProgress_def stage_names_def stageWeights_def js_round_def
  new_job_def known_ids_def Let_def

lemmas run_defs = queue_defs transcribeAudio_def call_fallback_def service_of_def
  awaiting_provider_def job_throws_def job_returns_def handleJobError_def cancelJob_def
  getCurrentStage_def overall_progress_def

lemma run_append: "run (xs @ ys) s = run ys (run xs s)"
  by (induction xs arbitrary: s) simp_all

lemma held_job:
  "map fst al = [k] \<Longrightarrow> map_of al k = Some (snd (hd al))"
  by (cases al) auto

subsection \<open>The containers\<close>

lemma map_of_Some_key: "map_of al k = Some v \<Longrightarrow> k \<in> set (map fst al)"
  by (metis map_of_eq_None_iff option.distinct(1) set_map)

lemma keys_update_present:
  "map_of al k = Some v \<Longrightarrow> map fst (AList.update k v' al) = map fst al"
  by (simp add: update_keys map_of_Some_key [unfolded set_map])

lemma shape_progress_update:
  "qids (progress_update j sn st p s) = qids s"
  "keys (progress_update j sn st p s) = keys s"
  "maxConcurrent (progress_update j sn st p s) = maxConcurrent s"
  "tasks (progress_update j sn st p s) = tasks s"
  "provider_calls (progress_update j sn st p s) = provider_calls s"
  "released (progress_update j sn st p s) = released s"
  by (simp_all add: progress_update_def qids_def keys_def Let_def keys_update_present
        split: option.splits)

lemma shape_call_fallback:
  "qids (call_fallback j s) = qids s"
  "keys (call_fallback j s) = keys s"
  "maxConcurrent (call_fallback j s) = maxConcurrent s"
  by (simp_all add: call_fallback_def qids_def keys_def)

lemma shape_transcribeAudio:
  "qids (transcribeAudio j s) = qids s"
  "keys (transcribeAudio j s) = keys s"
  "maxConcurrent (transcribeAudio j s) = maxConcurrent s"
  by (simp_all add: transcribeAudio_def call_fallback_def qids_def keys_def Let_def
        split: option.splits)

lemma shape_job_throws:
  "qids (job_throws j m s) = qids s"
  "keys (job_throws j m s) = removeAll j (keys s)"
  "maxConcurrent (job_throws j m s) = maxConcurrent s"
proof -
  have "map_of (processing s) j = None \<Longrightarrow> removeAll j (keys s) = keys s"
    by (simp add: keys_def map_of_eq_None_iff)
  then show "keys (job_throws j m s) = removeAll j (keys s)"
    by (simp add: job_throws_def keys_def Let_def delete_keys split: option.splits)
qed (simp_all add: job_throws_def qids_def Let_def split: option.splits)

lemma shape_job_returns:
  "qids (job_returns j s) = qids s"
  "keys (job_returns j s) = removeAll j (keys s)"
  "maxConcurrent (job_returns j s) = maxConcurrent s"
proof -
  let ?s1 = "progress_update j Finalization Stage_completed 100 s"
  have "map_of (processing ?s1) j = None \<Longrightarrow> removeAll j (keys ?s1) = keys ?s1"
    by (simp add: keys_def map_of_eq_None_iff)
  then have "keys (job_returns j s) = removeAll j (keys ?s1)"
    by (simp add: job_returns_def keys_def Let_def delete_keys split: option.splits)
  then show "keys (job_returns j s) = removeAll j (keys s)"
    by (simp add: shape_progress_update)
  have "qids (job_returns j s) = qids ?s1"
    by (simp add: job_returns_def qids_def Let_def split: option.splits)
  then show "qids (job_returns j s) = qids s"
    by (simp add: shape_progress_update)
  have "maxConcurrent (job_returns j s) = maxConcurrent ?s1"
    by (simp add: job_returns_def Let_def split: option.splits)
  then show "maxConcurrent (job_returns j s) = maxConcurrent s"
    by (simp add: shape_progress_update)
qed

lemma findIndex_Some:
  "findIndex P xs = Some i \<Longrightarrow> i < length xs \<and> P (xs ! i) \<and> (\<forall>k < i. \<not> P (xs ! k))"
proof (induction xs arbitrary: i)
  case Nil
  then show ?case by simp
next
  case (Cons x xs)
  show ?case
  proof (cases "P x")
    case True
    with Cons.prems show ?thesis by simp
  next
    case False
    with Cons.prems obtain i' where i': "findIndex P xs = Some i'" "i = Suc i'"
      by auto
    from Cons.IH [OF i'(1)] False i'(2) show ?thesis
      by (auto simp: nth_Cons split: nat.splits)
  qed
qed

lemma findIndex_None: "findIndex P xs = None \<longleftrightarrow> (\<forall>x \<in> set xs. \<not> P x)"
  by (induction xs) auto

lemma shape_cancelJob:
  "maxConcurrent (snd (cancelJob j s)) = maxConcurrent s"
  "keys (snd (cancelJob j s)) = keys s"
  "\<exists>i. qids (snd (cancelJob j s)) = take i (qids s) @ drop (Suc i) (qids s)
        \<or> qids (snd (cancelJob j s)) = qids s"
    apply (simp_all add: cancelJob_def qids_def keys_def keys_update_present
        split: option.splits)
  by (metis drop_map take_map)

lemma shape_addJob:
  "qids (addJob j sv s) = qids s @ [j]"
  "keys (addJob j sv s) = keys s"
  "maxConcurrent (addJob j sv s) = maxConcurrent s"
  by (simp_all add: addJob_def qids_def keys_def new_job_def)

lemma shape_processQueue:
  "maxConcurrent (processQueue s) = maxConcurrent s"
  "int (length (keys s)) \<ge> maxConcurrent s \<or> qids s = [] \<Longrightarrow> processQueue s = s"
  "\<not> (int (length (keys s)) \<ge> maxConcurrent s \<or> qids s = []) \<Longrightarrow>
     qids (processQueue s) = tl (qids s)
     \<and> keys (processQueue s) =
         (if hd (qids s) \<in> set (keys s) then keys s else keys s @ [hd (qids s)])"
  by (simp_all add: processQueue_def Let_def shape_progress_update qids_def keys_def
        update_keys map_tl hd_map
        shape_progress_update [unfolded qids_def keys_def])

lemma containers_ok_same:
  "qids s' = qids s \<Longrightarrow> keys s' = keys s \<Longrightarrow> maxConcurrent s' = maxConcurrent s \<Longrightarrow>
   containers_ok s \<Longrightarrow> containers_ok s'"
  by (simp add: containers_ok_def)

lemma containers_ok_removed:
  assumes "qids s' = qids s" "keys s' = removeAll j (keys s)"
    "maxConcurrent s' = maxConcurrent s" "containers_ok s"
  shows "containers_ok s'"
proof -
  have "length (removeAll j (keys s)) \<le> length (keys s)"
    by (simp add: removeAll_filter_not_eq)
  then have "int (length (removeAll j (keys s))) \<le> int (length (keys s))"
    by simp
  also have "\<dots> \<le> max 0 (maxConcurrent s)"
    using assms(4) by (simp add: containers_ok_def)
  finally have "int (length (keys s')) \<le> max 0 (maxConcurrent s')"
    by (simp only: assms(2,3))
  moreover have "set (keys s') \<subseteq> set (keys s)"
    by (auto simp: assms(2))
  moreover have "distinct (keys s')"
    using assms(4) by (simp add: assms(2) containers_ok_def distinct_removeAll)
  ultimately show ?thesis
    using assms(4) unfolding containers_ok_def assms(1) by blast
qed

lemma containers_ok_tasks [simp]:
  "containers_ok (s\<lparr>tasks := t\<rparr>) = containers_ok s"
  by (simp add: containers_ok_def qids_def keys_def)

lemma containers_ok_processQueue:
  assumes "containers_ok s"
  shows "containers_ok (processQueue s)"
proof (cases "int (length (keys s)) \<ge> maxConcurrent s \<or> qids s = []")
  case True
  then show ?thesis using assms by (simp add: shape_processQueue)
next
  case False
  then obtain j rest where q: "qids s = j # rest"
    by (cases "qids s") auto
  from assms q have fresh: "j \<notin> set (keys s)" "j \<notin> set rest"
    by (auto simp: containers_ok_def)
  from shape_processQueue(3) [OF False] q fresh
  have shape: "qids (processQueue s) = rest" "keys (processQueue s) = keys s @ [j]"
    by simp_all
  from False have "int (length (keys s)) < maxConcurrent s" by simp
  then have "int (length (keys s @ [j])) \<le> max 0 (maxConcurrent s)" by simp
  with assms q fresh show ?thesis
    unfolding containers_ok_def shape shape_processQueue(1) by auto
qed

lemma distinct_splice: "distinct xs \<Longrightarrow> distinct (take i xs @ drop (Suc i) xs)"
proof -
  assume d: "distinct xs"
  have "set (take i xs) \<inter> set (drop (Suc i) xs) = {}"
    using d by (intro set_take_disj_set_drop_if_distinct) simp_all
  with d show ?thesis by simp
qed

lemma set_splice: "set (take i xs @ drop (Suc i) xs) \<subseteq> set xs"
  by (auto dest: in_set_takeD in_set_dropD)

lemma containers_ok_cancelJob:
  assumes "containers_ok s"
  shows "containers_ok (snd (cancelJob j s))"
proof -
  obtain i where
    "qids (snd (cancelJob j s)) = take i (qids s) @ drop (Suc i) (qids s)
     \<or> qids (snd (cancelJob j s)) = qids s"
    using shape_cancelJob(3) by blast
  then show ?thesis
  proof
    assume q: "qids (snd (cancelJob j s)) = take i (qids s) @ drop (Suc i) (qids s)"
    have "set (qids (snd (cancelJob j s))) \<subseteq> set (qids s)"
      unfolding q by (rule set_splice)
    moreover have "distinct (qids (snd (cancelJob j s)))"
      unfolding q using assms by (simp only: distinct_splice containers_ok_def)
    ultimately show ?thesis
      using assms unfolding containers_ok_def shape_cancelJob(1,2) by blast
  next
    assume "qids (snd (cancelJob j s)) = qids s"
    then show ?thesis
      using assms unfolding containers_ok_def shape_cancelJob(1,2) by simp
  qed
qed

lemma containers_ok_addJob:
  assumes "containers_ok s" "j \<notin> known_ids s"
  shows "containers_ok (addJob j sv s)"
proof -
  from assms(2) have "j \<notin> set (qids s)" "j \<notin> set (keys s)"
    by (simp_all add: known_ids_def qids_def keys_def)
  with assms(1) show ?thesis
    by (auto simp: containers_ok_def shape_addJob)
qed

lemma containers_ok_step:
  assumes "containers_ok s" "fresh_ids [e] s"
  shows "containers_ok (step e s)"
proof (cases e)
  case (Submit j sv)
  with assms show ?thesis by (simp add: containers_ok_addJob)
next
  case Tick
  with assms show ?thesis by (simp add: containers_ok_processQueue)
next
  case (Cancel j)
  with assms show ?thesis by (simp add: containers_ok_cancelJob)
next
  case (Ffmpeg_progress j p)
  with assms show ?thesis
    by (auto intro: containers_ok_same simp: shape_progress_update)
next
  case (Ffmpeg_end j)
  with assms show ?thesis
    by (auto intro: containers_ok_same simp: shape_progress_update shape_transcribeAudio)
next
  case (Ffmpeg_error j m)
  with assms show ?thesis
    by (auto intro: containers_ok_removed simp: shape_job_throws)
next
  case (Provider_progress j p)
  with assms show ?thesis
    by (auto intro: containers_ok_same simp: shape_progress_update)
next
  case (Provider_result j)
  with assms show ?thesis
    by (auto intro: containers_ok_same simp: shape_progress_update Let_def)
next
  case (Provider_error j m)
  with assms show ?thesis
    by (auto intro: containers_ok_same containers_ok_removed
        simp: shape_call_fallback shape_job_throws)
next
  case (Diarization_progress j p)
  with assms show ?thesis
    by (auto intro: containers_ok_same simp: shape_progress_update)
next
  case (Diarization_result j)
  with assms show ?thesis
    by (auto intro: containers_ok_same simp: shape_progress_update Let_def)
next
  case (Diarization_error j m)
  with assms show ?thesis
    by (auto intro: containers_ok_removed simp: shape_job_throws)
next
  case (Save_done j)
  with assms show ?thesis
    by (auto intro: containers_ok_removed simp: shape_job_returns)
next
  case (Save_error j m)
  with assms show ?thesis
    by (auto intro: containers_ok_removed simp: shape_job_throws)
qed

lemma fresh_ids_Cons: "fresh_ids (e # es) s \<longleftrightarrow> fresh_ids [e] s \<and> fresh_ids es (step e s)"
  by (cases e) simp_all

lemma containers_ok_run:
  "containers_ok s \<Longrightarrow> fresh_ids es s \<Longrightarrow> containers_ok (run es s)"
proof (induction es arbitrary: s)
  case Nil
  then show ?case by simp
next
  case (Cons e es)
  from Cons.prems(2) have "fresh_ids [e] s" "fresh_ids es (step e s)"
    by (simp_all only: fresh_ids_Cons [of e es s])
  with Cons.IH [of "step e s"] Cons.prems(1) show ?case
    by (simp add: containers_ok_step)
qed

lemma containers_ok_constructor: "containers_ok (constructor parsed)"
  by (simp add: containers_ok_def constructor_def qids_def keys_def)


text \<open>
  Claim C6. In every state that the scheduler reaches from its constructor (submitted ids
  being fresh), the \<open>processing\<close> Map holds at most \<open>maxConcurrent\<close> jobs (and none at
  all under a negative bound), no job id is both in the pending queue and in the Map, and
  no id occurs twice in either. A tick changes nothing when the Map is at the bound or the
  queue is empty; otherwise it moves exactly the head of the queue into the Map. A
  submission is appended at the tail of the queue, so admission is first in, first out.
\<close>

theorem scheduler_bounds:
  assumes "s = run es (constructor parsed)" and "fresh_ids es (constructor parsed)"
  shows "(0 \<le> maxConcurrent s \<longrightarrow> int (length (processing s)) \<le> maxConcurrent s)
    \<and> (maxConcurrent s < 0 \<longrightarrow> processing s = [])
    \<and> set (map job_id (queue s)) \<inter> set (map fst (processing s)) = {}
    \<and> distinct (map job_id (queue s)) \<and> distinct (map fst (processing s))
    \<and> (int (length (processing s)) \<ge> maxConcurrent s \<or> queue s = [] \<longrightarrow> step Tick s = s)
    \<and> (int (length (processing s)) < maxConcurrent s \<and> queue s \<noteq> [] \<longrightarrow>
          map job_id (queue (step Tick s)) = tl (map job_id (queue s))
          \<and> map fst (processing (step Tick s)) = map fst (processing s) @ [job_id (hd (queue s))])
    \<and> queue (step (Submit jobId service) s) = queue s @ [new_job jobId service]"
proof -
  have ok: "containers_ok s"
    unfolding assms(1) using containers_ok_constructor assms(2) by (rule containers_ok_run)
  then have bound: "int (length (processing s)) \<le> max 0 (maxConcurrent s)"
    and disj: "set (map job_id (queue s)) \<inter> set (map fst (processing s)) = {}"
    and dist: "distinct (map job_id (queue s))" "distinct (map fst (processing s))"
    by (simp_all add: containers_ok_def qids_def keys_def)
  have blocked: "step Tick s = s"
    if "int (length (processing s)) \<ge> maxConcurrent s \<or> queue s = []"
    using that shape_processQueue(2) [of s] by (simp add: qids_def keys_def)
  have admit: "map job_id (queue (step Tick s)) = tl (map job_id (queue s))
          \<and> map fst (processing (step Tick s)) = map fst (processing s) @ [job_id (hd (queue s))]"
    if free: "int (length (processing s)) < maxConcurrent s \<and> queue s \<noteq> []"
  proof -
    from free have "\<not> (int (length (keys s)) \<ge> maxConcurrent s \<or> qids s = [])"
      by (simp add: qids_def keys_def)
    from shape_processQueue(3) [OF this]
    have shape: "qids (processQueue s) = tl (qids s)"
      "keys (processQueue s) =
         (if hd (qids s) \<in> set (keys s) then keys s else keys s @ [hd (qids s)])"
      by simp_all
    from free have "qids s \<noteq> []"
      by (simp add: qids_def)
    then have "hd (qids s) \<in> set (qids s)"
      by (rule hd_in_set)
    with disj have "hd (qids s) \<notin> set (keys s)"
      by (auto simp: qids_def keys_def)
    with shape free show ?thesis
      by (simp add: qids_def keys_def hd_map)
  qed
  have submit: "queue (step (Submit jobId service) s) = queue s @ [new_job jobId service]"
    by (simp add: addJob_def)
  from bound have "0 \<le> maxConcurrent s \<longrightarrow> int (length (processing s)) \<le> maxConcurrent s"
    and "maxConcurrent s < 0 \<longrightarrow> processing s = []"
    by auto
  with disj dist blocked admit submit show ?thesis
    by blast
qed

theorem scheduler_bounds_witness:
  "fresh_ids five_jobs (constructor (Some 2))
   \<and> map fst (processing (run five_jobs (constructor (Some 2)))) = [''a'', ''b'']
   \<and> map job_id (queue (run five_jobs (constructor (Some 2)))) = [''c'', ''d'', ''e'']
   \<and> step Tick (run five_jobs (constructor (Some 2))) = run five_jobs (constructor (Some 2))"
proof -
  have fresh: "fresh_ids five_jobs (constructor (Some 2))"
    by (simp add: five_jobs_def queue_defs)
  have keys: "map fst (processing (run five_jobs (constructor (Some 2)))) = [''a'', ''b'']"
    by (simp add: five_jobs_def queue_defs)
  have q: "map job_id (queue (run five_jobs (constructor (Some 2)))) = [''c'', ''d'', ''e'']"
    by (simp add: five_jobs_def queue_defs)
  have mc: "maxConcurrent (run five_jobs (constructor (Some 2))) = 2"
    by (simp add: five_jobs_def queue_defs)
  from keys have len: "length (processing (run five_jobs (constructor (Some 2)))) = 2"
    by (metis length_map list.size(3,4) One_nat_def Suc_1 add.commute plus_1_eq_Suc)
  show ?thesis
    using scheduler_bounds [OF refl fresh, of "''f''" None] fresh keys q mc len
    by simp
qed

subsection \<open>Range of the overall progress\<close>

lemma job_ok_update:
  assumes "job_ok job" "0 \<le> p" "p \<le> 100"
  shows "job_ok (updateJobProgress job sn st p)"
proof -
  let ?stgs = "(stages job)(sn := \<lparr>st_status = st, st_progress = p\<rparr>)"
  have stg: "0 \<le> st_progress (?stgs x) \<and> st_progress (?stgs x) \<le> 100" for x
    using assms by (simp add: job_ok_def)
  then have "0 \<le> totalProgress ?stgs \<and> totalProgress ?stgs \<le> 100"
    by (rule totalProgress_bounds)
  then have "0 \<le> js_round (totalProgress ?stgs) \<and> js_round (totalProgress ?stgs) \<le> 100"
    by (simp add: js_round_bounds)
  with stg show ?thesis
    unfolding job_ok_def updateJobProgress_def Let_def by simp
qed

lemma job_ok_status [simp]: "job_ok (job\<lparr>status := x\<rparr>) = job_ok job"
  by (simp add: job_ok_def)

lemma job_ok_handleJobError [simp]: "job_ok (handleJobError job m) = job_ok job"
  by (simp add: job_ok_def handleJobError_def)

lemma job_ok_new_job: "job_ok (new_job j sv)"
  by (simp add: job_ok_def new_job_def)

lemma set_update_subset: "set (AList.update k v al) \<subseteq> insert (k, v) (set al)"
  by (induction al) auto

lemma set_delete_subset: "set (AList.delete k al) \<subseteq> set al"
  by (induction al) auto

lemma overall_progress_append [simp]:
  "overall_progress (xs @ ys) = overall_progress xs @ overall_progress ys"
  by (simp add: overall_progress_def)

lemma overall_progress_single [simp]:
  "overall_progress [Job_progress j sn st p n] = [n]"
  "overall_progress [Job_queued j k] = []"
  "overall_progress [Job_completed j] = []"
  "overall_progress [Job_failed j m c] = []"
  by (simp_all add: overall_progress_def)

lemma map_of_Some_in: "map_of al k = Some v \<Longrightarrow> (k, v) \<in> set al"
  by (rule map_of_SomeD)

lemma progress_ok_progress_update:
  assumes "progress_ok s" "0 \<le> p" "p \<le> 100"
  shows "progress_ok (progress_update j sn st p s)"
proof (cases "map_of (processing s) j")
  case None
  with assms show ?thesis by (simp add: progress_update_def)
next
  case (Some job)
  then have "job \<in> all_jobs s"
    by (force simp: all_jobs_def dest: map_of_Some_in)
  with assms have ok: "job_ok (updateJobProgress job sn st p)"
    by (simp add: progress_ok_def job_ok_update)
  have "all_jobs (progress_update j sn st p s)
          \<subseteq> insert (updateJobProgress job sn st p) (all_jobs s)"
    using Some set_update_subset [of j "updateJobProgress job sn st p" "processing s"]
    by (auto simp: progress_update_def all_jobs_def Let_def)
  moreover have "overall_progress (emitted (progress_update j sn st p s))
          = overall_progress (emitted s) @ [progress (updateJobProgress job sn st p)]"
    using Some by (simp add: progress_update_def Let_def)
  ultimately show ?thesis
    using assms(1) ok unfolding progress_ok_def by (auto simp: job_ok_def)
qed

lemma progress_ok_tasks [simp]: "progress_ok (s\<lparr>tasks := t\<rparr>) = progress_ok s"
  by (simp add: progress_ok_def all_jobs_def)

lemma progress_ok_call_fallback [simp]: "progress_ok (call_fallback j s) = progress_ok s"
  by (simp add: progress_ok_def all_jobs_def call_fallback_def)

lemma progress_ok_transcribeAudio [simp]: "progress_ok (transcribeAudio j s) = progress_ok s"
  by (simp add: progress_ok_def all_jobs_def transcribeAudio_def call_fallback_def Let_def
      split: option.splits)

lemma progress_ok_job_throws:
  assumes "progress_ok s"
  shows "progress_ok (job_throws j m s)"
proof (cases "map_of (processing s) j")
  case None
  with assms show ?thesis by (simp add: job_throws_def)
next
  case (Some job)
  then have "job \<in> all_jobs s"
    by (force simp: all_jobs_def dest: map_of_Some_in)
  with assms have ok: "job_ok (handleJobError job m)"
    by (simp add: progress_ok_def)
  have "all_jobs (job_throws j m s) \<subseteq> insert (handleJobError job m) (all_jobs s)"
    using Some set_delete_subset [of j "processing s"]
    by (auto simp: job_throws_def all_jobs_def Let_def)
  moreover have "overall_progress (emitted (job_throws j m s)) = overall_progress (emitted s)"
    using Some by (simp add: job_throws_def Let_def)
  ultimately show ?thesis
    using assms ok unfolding progress_ok_def by auto
qed

lemma progress_ok_job_returns:
  assumes "progress_ok s"
  shows "progress_ok (job_returns j s)"
proof -
  let ?s1 = "progress_update j Finalization Stage_completed 100 s"
  have s1: "progress_ok ?s1"
    using assms by (simp add: progress_ok_progress_update)
  show ?thesis
  proof (cases "map_of (processing ?s1) j")
    case None
    with s1 show ?thesis by (simp add: job_returns_def Let_def)
  next
    case (Some job)
    then have "job \<in> all_jobs ?s1"
      by (force simp: all_jobs_def dest: map_of_Some_in)
    with s1 have ok: "job_ok (job\<lparr>status := Completed\<rparr>)"
      by (simp add: progress_ok_def)
    have "all_jobs (job_returns j s) \<subseteq> insert (job\<lparr>status := Completed\<rparr>) (all_jobs ?s1)"
      using Some set_delete_subset [of j "processing ?s1"]
      by (auto simp: job_returns_def all_jobs_def Let_def)
    moreover have "overall_progress (emitted (job_returns j s)) = overall_progress (emitted ?s1)"
      using Some by (simp add: job_returns_def Let_def)
    ultimately show ?thesis
      using s1 ok unfolding progress_ok_def by auto
  qed
qed

lemma progress_ok_addJob:
  assumes "progress_ok s"
  shows "progress_ok (addJob j sv s)"
  using assms job_ok_new_job [of j sv]
  by (auto simp: progress_ok_def all_jobs_def addJob_def)

lemma progress_ok_processQueue:
  assumes "progress_ok s"
  shows "progress_ok (processQueue s)"
proof (cases "int (length (processing s)) \<ge> maxConcurrent s \<or> queue s = []")
  case True
  with assms show ?thesis by (simp add: processQueue_def)
next
  case False
  let ?job = "hd (queue s)"
  let ?s1 = "s\<lparr>queue := tl (queue s),
                processing := AList.update (job_id ?job) ?job (processing s)\<rparr>"
  from False have "?job \<in> set (queue s)" by simp
  moreover have "set (tl (queue s)) \<subseteq> set (queue s)"
    by (cases "queue s") auto
  ultimately have "all_jobs ?s1 \<subseteq> all_jobs s"
    using set_update_subset [of "job_id ?job" ?job "processing s"]
    by (auto simp: all_jobs_def)
  with assms have "progress_ok ?s1"
    unfolding progress_ok_def by auto
  then have "progress_ok (progress_update (job_id ?job) Processing In_progress 0 ?s1)"
    by (simp add: progress_ok_progress_update)
  with False show ?thesis
    by (simp add: processQueue_def Let_def)
qed

lemma progress_ok_cancelJob:
  assumes "progress_ok s"
  shows "progress_ok (snd (cancelJob j s))"
proof (cases "findIndex (\<lambda>job. job_id job = j) (queue s)")
  case (Some i)
  then have "i < length (queue s)"
    by (simp add: findIndex_Some)
  then have "queue s ! i \<in> set (queue s)" by simp
  then have "all_jobs (snd (cancelJob j s)) \<subseteq> all_jobs s"
    using Some set_splice [of i "queue s"] by (auto simp: cancelJob_def all_jobs_def)
  moreover have "emitted (snd (cancelJob j s)) = emitted s"
    using Some by (simp add: cancelJob_def)
  ultimately show ?thesis
    using assms unfolding progress_ok_def by auto
next
  case None
  show ?thesis
  proof (cases "map_of (processing s) j")
    case None
    with \<open>findIndex (\<lambda>job. job_id job = j) (queue s) = None\<close> assms show ?thesis
      by (simp add: cancelJob_def)
  next
    case (Some job)
    then have "job \<in> all_jobs s"
      by (force simp: all_jobs_def dest: map_of_Some_in)
    with assms have ok: "job_ok (job\<lparr>status := Cancelled\<rparr>)"
      by (simp add: progress_ok_def)
    have "all_jobs (snd (cancelJob j s)) \<subseteq> insert (job\<lparr>status := Cancelled\<rparr>) (all_jobs s)"
      using Some None set_update_subset [of j "job\<lparr>status := Cancelled\<rparr>" "processing s"]
      by (auto simp: cancelJob_def all_jobs_def)
    moreover have "emitted (snd (cancelJob j s)) = emitted s"
      using Some None by (simp add: cancelJob_def)
    ultimately show ?thesis
      using assms ok unfolding progress_ok_def by auto
  qed
qed

lemma progress_ok_step:
  assumes "progress_ok s" "report_in_range e"
  shows "progress_ok (step e s)"
proof (cases e)
  case (Ffmpeg_progress j percent)
  have "0 \<le> (of_int (js_round (case percent of None \<Rightarrow> 0 | Some p \<Rightarrow> p)) :: real)
        \<and> (of_int (js_round (case percent of None \<Rightarrow> 0 | Some p \<Rightarrow> p)) :: real) \<le> 100"
    using assms(2) Ffmpeg_progress by (cases percent) (simp_all add: js_round_def)
  with assms Ffmpeg_progress show ?thesis
    by (simp add: progress_ok_progress_update)
qed (use assms in \<open>simp_all add: progress_ok_addJob progress_ok_processQueue
      progress_ok_cancelJob progress_ok_progress_update progress_ok_job_throws
      progress_ok_job_returns Let_def\<close>)

lemma progress_ok_run:
  "progress_ok s \<Longrightarrow> \<forall>e \<in> set es. report_in_range e \<Longrightarrow> progress_ok (run es s)"
  by (induction es arbitrary: s) (simp_all add: progress_ok_step)

lemma progress_ok_constructor: "progress_ok (constructor parsed)"
  by (simp add: progress_ok_def all_jobs_def constructor_def overall_progress_def)


text \<open>
  Claim C5, as amended. The weights of the five stages that enter the overall progress sum
  to 100. In every run in which each progress report of ffmpeg, of a speech provider and
  of the diarization lies in \<open>[0, 100]\<close>, every overall progress value emitted lies in
  \<open>[0, 100]\<close>, and so do the \<open>progress\<close> field and the weighted sum of every job at the end
  of the run.
\<close>

theorem overall_progress_range:
  "sum_list (map stageWeights stage_names) = 100
   \<and> set stage_names = UNIV \<and> distinct stage_names
   \<and> ((\<forall>e \<in> set es. report_in_range e) \<longrightarrow>
        (\<forall>n \<in> set (overall_progress (emitted (run es (constructor parsed)))). 0 \<le> n \<and> n \<le> 100)
        \<and> (\<forall>job \<in> all_jobs (run es (constructor parsed)).
              0 \<le> progress job \<and> progress job \<le> 100
              \<and> 0 \<le> totalProgress (stages job) \<and> totalProgress (stages job) \<le> 100))"
proof -
  have weights: "sum_list (map stageWeights stage_names) = 100"
    by (simp add: stage_names_def stageWeights_def)
  have range: "(\<forall>n \<in> set (overall_progress (emitted (run es (constructor parsed)))). 0 \<le> n \<and> n \<le> 100)
        \<and> (\<forall>job \<in> all_jobs (run es (constructor parsed)).
              0 \<le> progress job \<and> progress job \<le> 100
              \<and> 0 \<le> totalProgress (stages job) \<and> totalProgress (stages job) \<le> 100)"
    if "\<forall>e \<in> set es. report_in_range e"
  proof -
    have ok: "progress_ok (run es (constructor parsed))"
      using progress_ok_constructor that by (rule progress_ok_run)
    have "0 \<le> totalProgress (stages job) \<and> totalProgress (stages job) \<le> 100"
      if "job_ok job" for job
      using that by (intro totalProgress_bounds) (simp add: job_ok_def)
    with ok show ?thesis
      unfolding progress_ok_def by (auto simp: job_ok_def)
  qed
  from weights stage_names_all range show ?thesis
    by blast
qed

theorem overall_progress_range_witness:
  "list_all report_in_range half_way
   \<and> overall_progress (emitted (run half_way (constructor None))) = [10, 15, 20, 20, 38]
   \<and> list_all (\<lambda>n. 0 \<le> n \<and> n \<le> 100) (overall_progress (emitted (run half_way (constructor None))))"
proof -
  have reports: "list_all report_in_range half_way"
    by (simp add: half_way_def js_round_def)
  have "overall_progress (emitted (run half_way (constructor None))) = [10, 15, 20, 20, 38]"
    by (simp add: half_way_def run_defs)
  with reports overall_progress_range [of half_way None] show ?thesis
    by (simp add: list_all_iff)
qed

text \<open>
  Without the bound on the reports claim C5 fails: a transcode that reports 1000 percent
  puts the overall progress of its job at 110.
\<close>

theorem overall_progress_range_counterexample:
  "overall_progress (emitted (run over_report (constructor None))) = [10, 110]
   \<and> \<not> last (overall_progress (emitted (run over_report (constructor None)))) \<le> 100"
  by (simp add: over_report_def run_defs)

subsection \<open>Monotonicity of the overall progress\<close>

lemma updateJobProgress_fields:
  "stages (updateJobProgress job stageName st p)
     = (stages job)(stageName := \<lparr>st_status = st, st_progress = p\<rparr>)"
  "progress (updateJobProgress job stageName st p)
     = js_round (totalProgress ((stages job)(stageName := \<lparr>st_status = st, st_progress = p\<rparr>)))"
  by (simp_all add: updateJobProgress_def Let_def)

lemma progress_in_sync:
  "progress (updateJobProgress job stageName st p)
     = js_round (totalProgress (stages (updateJobProgress job stageName st p)))"
  by (simp add: updateJobProgress_def Let_def)

lemma raising_step:
  assumes "progress job = js_round (totalProgress (stages job))"
    and "st_progress (stages job stageName) \<le> p"
  shows "progress job \<le> progress (updateJobProgress job stageName st p)"
  using assms by (simp add: updateJobProgress_def Let_def js_round_mono totalProgress_mono)

lemma reported_above:
  assumes "progress job = js_round (totalProgress (stages job))" and "raising job updates"
  shows "sorted (progress job # reported job updates)"
  using assms
proof (induction updates arbitrary: job)
  case Nil
  show ?case by simp
next
  case (Cons u updates)
  obtain stageName st p where u: "u = (stageName, st, p)"
    by (cases u)
  let ?job = "updateJobProgress job stageName st p"
  from Cons.prems(2) u have up: "st_progress (stages job stageName) \<le> p" and rest: "raising ?job updates"
    by simp_all
  have tail: "sorted (progress ?job # reported ?job updates)"
    using progress_in_sync rest by (rule Cons.IH)
  have "progress job \<le> progress ?job"
    using Cons.prems(1) up by (rule raising_step)
  with tail have "sorted (progress job # progress ?job # reported ?job updates)"
    by auto
  then show ?case
    by (simp add: u)
qed

text \<open>
  Claim C4, as amended. Over any sequence of progress updates of a job in which no update
  reports for its stage less than the stage's current progress, the overall progress
  values emitted are non-decreasing. Every update leaves the \<open>progress\<close> field equal to
  the rounded weighted sum of the stages, and a single update of a job in that state that
  does not lower its stage does not lower the overall progress.
\<close>

theorem raising_updates_monotone:
  "(raising job ((stageName, st, p) # updates) \<longrightarrow>
      sorted (reported job ((stageName, st, p) # updates)))
   \<and> progress (updateJobProgress job stageName st p)
       = js_round (totalProgress (stages (updateJobProgress job stageName st p)))
   \<and> (progress job = js_round (totalProgress (stages job))
        \<and> st_progress (stages job stageName) \<le> p \<longrightarrow>
        progress job \<le> progress (updateJobProgress job stageName st p))"
proof -
  have "sorted (reported job ((stageName, st, p) # updates))"
    if "raising job ((stageName, st, p) # updates)"
  proof -
    from that have "raising (updateJobProgress job stageName st p) updates"
      by simp
    with progress_in_sync
    have "sorted (progress (updateJobProgress job stageName st p)
            # reported (updateJobProgress job stageName st p) updates)"
      by (rule reported_above)
    then show ?thesis by simp
  qed
  then show ?thesis
    using progress_in_sync raising_step by blast
qed

theorem raising_updates_monotone_witness:
  "raising (new_job ''a'' None) ((Processing, In_progress, 0) # after_admission)
   \<and> reported (new_job ''a'' None) ((Processing, In_progress, 0) # after_admission)
       = [10, 14, 20, 20, 23, 26, 32, 38, 68, 80, 80, 80, 81, 83, 89, 92, 94, 95, 95, 95, 100]
   \<and> sorted (reported (new_job ''a'' None) ((Processing, In_progress, 0) # after_admission))"
proof -
  have r: "raising (new_job ''a'' None) ((Processing, In_progress, 0) # after_admission)"
    by (simp add: after_admission_def updateJobProgress_fields new_job_def)
  have v: "reported (new_job ''a'' None) ((Processing, In_progress, 0) # after_admission)
       = [10, 14, 20, 20, 23, 26, 32, 38, 68, 80, 80, 80, 81, 83, 89, 92, 94, 95, 95, 95, 100]"
    by (simp add: after_admission_def updateJobProgress_fields new_job_def totalProgress_unfold
        js_round_def)
  from raising_updates_monotone [of "new_job ''a'' None" Processing In_progress 0 after_admission] r
  have "sorted (reported (new_job ''a'' None) ((Processing, In_progress, 0) # after_admission))"
    by blast
  with r v show ?thesis by simp
qed


text \<open>
  Claim C4 as stated fails on the fallback path: the primary call has reported 30 when it
  throws, the fallback call reports 5 first, and the overall progress emitted drops from
  38 to 23.
\<close>

theorem fallback_progress_counterexample:
  "overall_progress (emitted (run fallback_restart (constructor None)))
     = [10, 20, 20, 23, 26, 32, 38, 23, 26, 32, 38]
   \<and> \<not> sorted (overall_progress (emitted (run fallback_restart (constructor None))))"
  by (simp add: fallback_restart_def whisper_reports_until_api_def run_defs)

subsection \<open>Failures inside the pipeline\<close>

lemma step_without_task:
  "tasks s jobId = None \<Longrightarrow> concerns e jobId \<Longrightarrow> step e s = s"
  by (cases e) (simp_all add: awaiting_provider_def)

lemma job_throws_present:
  assumes "map_of (processing s) jobId = Some job"
  shows "released (job_throws jobId m s) = released s @ [job\<lparr>status := Failed, error := Some m\<rparr>]"
    and "emitted (job_throws jobId m s) = emitted s @ [Job_failed jobId m (getCurrentStage job)]"
    and "tasks (job_throws jobId m s) jobId = None"
    and "map_of (processing (job_throws jobId m s)) jobId = None"
    and "provider_calls (job_throws jobId m s) = provider_calls s"
    and "queue (job_throws jobId m s) = queue s"
  using assms
  by (simp_all add: job_throws_def Let_def handleJobError_def getCurrentStage_def delete_conv')


lemma held_progress_update:
  "map_option job_id (map_of (processing (progress_update j sn st p s)) k)
     = map_option job_id (map_of (processing s) k)"
  by (cases "map_of (processing s) j")
     (auto simp: progress_update_def Let_def update_conv' updateJobProgress_def)

lemma awaiting_fallback_progress_update:
  "awaiting_fallback k ident calls (progress_update j sn st p s) = awaiting_fallback k ident calls s"
  by (simp add: awaiting_fallback_def held_progress_update shape_progress_update)

lemma awaiting_fallback_tasks:
  "j \<noteq> k \<Longrightarrow> awaiting_fallback k ident calls (s\<lparr>tasks := (tasks s)(j := x)\<rparr>)
     = awaiting_fallback k ident calls s"
  by (simp add: awaiting_fallback_def qids_def)

lemma awaiting_fallback_job_throws:
  assumes "j \<noteq> k"
  shows "awaiting_fallback k ident calls (job_throws j m s) = awaiting_fallback k ident calls s"
  using assms
  by (cases "map_of (processing s) j")
     (simp_all add: awaiting_fallback_def job_throws_def Let_def qids_def)

lemma awaiting_fallback_job_returns:
  assumes "j \<noteq> k"
  shows "awaiting_fallback k ident calls (job_returns j s) = awaiting_fallback k ident calls s"
proof -
  let ?s1 = "progress_update j Finalization Stage_completed 100 s"
  have "awaiting_fallback k ident calls (job_returns j s) = awaiting_fallback k ident calls ?s1"
    using assms
    by (cases "map_of (processing ?s1) j")
       (simp_all add: awaiting_fallback_def job_returns_def Let_def qids_def)
  then show ?thesis
    by (simp add: awaiting_fallback_progress_update)
qed

lemma awaiting_fallback_call_fallback:
  assumes "j \<noteq> k"
  shows "awaiting_fallback k ident calls (call_fallback j s) = awaiting_fallback k ident calls s"
  using assms by (simp add: awaiting_fallback_def call_fallback_def qids_def calls_of_def)

lemma awaiting_fallback_transcribeAudio:
  assumes "j \<noteq> k"
  shows "awaiting_fallback k ident calls (transcribeAudio j s) = awaiting_fallback k ident calls s"
  using assms
  by (cases "map_of (processing s) j")
     (simp_all add: transcribeAudio_def Let_def awaiting_fallback_call_fallback,
      simp add: awaiting_fallback_def qids_def calls_of_def)

lemma awaiting_fallback_addJob:
  assumes "j \<noteq> k"
  shows "awaiting_fallback k ident calls (addJob j sv s) = awaiting_fallback k ident calls s"
  using assms by (simp add: awaiting_fallback_def addJob_def qids_def new_job_def)

lemma awaiting_fallback_processQueue:
  assumes "awaiting_fallback k ident calls s"
  shows "awaiting_fallback k ident calls (processQueue s)"
proof (cases "int (length (processing s)) \<ge> maxConcurrent s \<or> queue s = []")
  case True
  with assms show ?thesis by (simp add: processQueue_def)
next
  case False
  let ?job = "hd (queue s)"
  let ?s1 = "s\<lparr>queue := tl (queue s),
                processing := AList.update (job_id ?job) ?job (processing s)\<rparr>"
  from False have "job_id ?job \<in> set (qids s)"
    by (cases "queue s") (simp_all add: qids_def)
  with assms have other: "job_id ?job \<noteq> k"
    by (auto simp: awaiting_fallback_def)
  have "set (qids ?s1) \<subseteq> set (qids s)"
    by (cases "queue s") (auto simp: qids_def)
  with assms other have "awaiting_fallback k ident calls ?s1"
    by (auto simp: awaiting_fallback_def update_conv')
  then have "awaiting_fallback k ident calls
      (progress_update (job_id ?job) Processing In_progress 0 ?s1)"
    by (simp only: awaiting_fallback_progress_update)
  with other False show ?thesis
    by (simp add: processQueue_def Let_def awaiting_fallback_tasks)
qed

lemma awaiting_fallback_cancelJob:
  assumes "awaiting_fallback k ident calls s"
  shows "awaiting_fallback k ident calls (snd (cancelJob j s))"
proof (cases "findIndex (\<lambda>job. job_id job = j) (queue s)")
  case (Some i)
  have "set (take i (qids s) @ drop (Suc i) (qids s)) \<subseteq> set (qids s)"
    by (rule set_splice)
  then have "set (qids (snd (cancelJob j s))) \<subseteq> set (qids s)"
    using Some by (simp add: cancelJob_def qids_def take_map drop_map)
  with assms Some show ?thesis
    by (auto simp: awaiting_fallback_def cancelJob_def)
next
  case None
  with assms show ?thesis
    by (cases "map_of (processing s) j")
       (auto simp: awaiting_fallback_def cancelJob_def update_conv' qids_def)
qed

lemma awaiting_fallback_task:
  "awaiting_fallback k ident calls s \<Longrightarrow> tasks s k = Some Await_fallback"
  by (simp add: awaiting_fallback_def)

lemmas awaiting_fallback_frames = awaiting_fallback_progress_update awaiting_fallback_tasks
  awaiting_fallback_job_throws awaiting_fallback_job_returns awaiting_fallback_call_fallback
  awaiting_fallback_transcribeAudio awaiting_fallback_addJob

lemma awaiting_fallback_step:
  assumes "awaiting_fallback k ident calls s" and "\<not> settles e k" and "fresh_ids [e] s"
  shows "awaiting_fallback k ident calls (step e s)"
proof (cases e)
  case (Submit j sv)
  from assms(1) have "k \<in> known_ids s"
    by (cases "map_of (processing s) k")
       (auto simp: awaiting_fallback_def known_ids_def dest: map_of_SomeD intro: rev_image_eqI)
  with assms(3) Submit have "j \<noteq> k" by auto
  with assms(1) Submit show ?thesis by (simp add: awaiting_fallback_addJob)
next
  case Tick
  with assms(1) show ?thesis by (simp add: awaiting_fallback_processQueue)
next
  case (Cancel j)
  with assms(1) show ?thesis by (simp add: awaiting_fallback_cancelJob)
next
  case (Ffmpeg_progress j percent)
  with assms(1) show ?thesis by (simp add: awaiting_fallback_frames)
next
  case (Ffmpeg_end j)
  with assms(1) awaiting_fallback_task [OF assms(1)] show ?thesis
    by (cases "j = k") (simp_all add: awaiting_fallback_frames)
next
  case (Ffmpeg_error j m)
  with assms(1) awaiting_fallback_task [OF assms(1)] show ?thesis
    by (cases "j = k") (simp_all add: awaiting_fallback_frames)
next
  case (Provider_progress j p)
  with assms(1) show ?thesis by (simp add: awaiting_fallback_frames)
next
  case (Provider_result j)
  with assms(2) have "j \<noteq> k" by simp
  with assms(1) Provider_result show ?thesis
    by (simp add: Let_def awaiting_fallback_frames)
next
  case (Provider_error j m)
  with assms(2) have "j \<noteq> k" by simp
  with assms(1) Provider_error show ?thesis
    by (simp add: awaiting_fallback_frames)
next
  case (Diarization_progress j p)
  with assms(1) show ?thesis by (simp add: awaiting_fallback_frames)
next
  case (Diarization_result j)
  with assms(1) awaiting_fallback_task [OF assms(1)] show ?thesis
    by (cases "j = k") (simp_all add: Let_def awaiting_fallback_frames)
next
  case (Diarization_error j m)
  with assms(1) awaiting_fallback_task [OF assms(1)] show ?thesis
    by (cases "j = k") (simp_all add: awaiting_fallback_frames)
next
  case (Save_done j)
  with assms(1) awaiting_fallback_task [OF assms(1)] show ?thesis
    by (cases "j = k") (simp_all add: awaiting_fallback_frames)
next
  case (Save_error j m)
  with assms(1) awaiting_fallback_task [OF assms(1)] show ?thesis
    by (cases "j = k") (simp_all add: awaiting_fallback_frames)
qed

lemma awaiting_fallback_run:
  assumes "awaiting_fallback k ident calls s" and "\<forall>e \<in> set es. \<not> settles e k"
    and "fresh_ids es s"
  shows "awaiting_fallback k ident calls (run es s)"
  using assms
proof (induction es arbitrary: s)
  case Nil
  then show ?case by simp
next
  case (Cons e es)
  from Cons.prems(3) have f: "fresh_ids [e] s" "fresh_ids es (step e s)"
    by (simp_all only: fresh_ids_Cons [of e es s])
  from Cons.prems(1,2) f(1) have "awaiting_fallback k ident calls (step e s)"
    by (intro awaiting_fallback_step) simp_all
  with Cons.IH [of "step e s"] Cons.prems(2) f(2) show ?case
    by simp
qed

lemma fresh_ids_append: "fresh_ids (xs @ ys) s \<longleftrightarrow> fresh_ids xs s \<and> fresh_ids ys (run xs s)"
proof (induction xs arbitrary: s)
  case Nil
  show ?case by simp
next
  case (Cons e xs)
  show ?case
    using Cons [of "step e s"] fresh_ids_Cons [of e "xs @ ys" s] fresh_ids_Cons [of e xs s]
    by simp
qed

text \<open>
  Claim C3. Take any run from the constructor with fresh ids in which a running job awaits
  its primary provider call, that call throws, any events follow that do not settle the
  job's next provider call (progress callbacks, other jobs, ticks, cancel requests), and
  that call throws as well. The first failure makes exactly one further provider call for
  the job, to Whisper; up to and including the second failure no other call is made for
  it. The second failure releases the job with status \<open>failed\<close> and its message as the
  recorded error, emits \<open>job-failed\<close> with that message, and leaves nothing that a later
  callback or settlement of the job could act on.
\<close>

theorem fallback_once:
  assumes fresh: "fresh_ids (before @ Provider_error jobId e1 # mid @ [Provider_error jobId e2])
                    (constructor parsed)"
    and s: "s = run before (constructor parsed)"
    and primary: "tasks s jobId = Some Await_primary"
    and held: "map_of (processing s) jobId = Some job"
    and mid: "\<forall>e \<in> set mid. \<not> settles e jobId"
    and s1: "s1 = step (Provider_error jobId e1) s"
    and s2: "s2 = step (Provider_error jobId e2) (run mid s1)"
  shows "calls_of jobId (provider_calls s1) = calls_of jobId (provider_calls s) @ [''whisper'']
    \<and> tasks s1 jobId = Some Await_fallback
    \<and> calls_of jobId (provider_calls s2) = calls_of jobId (provider_calls s) @ [''whisper'']
    \<and> (\<exists>job'. released s2 = released (run mid s1) @ [job']
           \<and> job_id job' = job_id job \<and> status job' = Failed \<and> error job' = Some e2)
    \<and> (\<exists>stageName. emitted s2 = emitted (run mid s1) @ [Job_failed jobId e2 stageName])
    \<and> map_of (processing s2) jobId = None
    \<and> tasks s2 jobId = None
    \<and> (concerns e jobId \<longrightarrow> step e s2 = s2)"
proof -
  let ?calls = "calls_of jobId (provider_calls s) @ [''whisper'']"
  from fresh have f0: "fresh_ids before (constructor parsed)"
    and f1: "fresh_ids (Provider_error jobId e1 # mid @ [Provider_error jobId e2]) s"
    unfolding s by (simp_all only: fresh_ids_append [of before _ "constructor parsed"])
  from f1 have "fresh_ids (mid @ [Provider_error jobId e2]) s1"
    unfolding s1 by simp
  then have fmid: "fresh_ids mid s1"
    by (simp only: fresh_ids_append [of mid _ s1])
  have "containers_ok s"
    unfolding s using containers_ok_constructor f0 by (rule containers_ok_run)
  moreover have "jobId \<in> set (keys s)"
    unfolding keys_def using held by (rule map_of_Some_key)
  ultimately have notq: "jobId \<notin> set (qids s)"
    by (auto simp: containers_ok_def)
  have c1: "s1 = call_fallback jobId s"
    using primary s1 by simp
  then have start: "awaiting_fallback jobId (job_id job) ?calls s1"
    using held notq
    by (simp add: awaiting_fallback_def call_fallback_def qids_def calls_of_def)
  then have at1: "calls_of jobId (provider_calls s1) = ?calls" "tasks s1 jobId = Some Await_fallback"
    by (simp_all add: awaiting_fallback_def)
  from start mid fmid have fin: "awaiting_fallback jobId (job_id job) ?calls (run mid s1)"
    by (rule awaiting_fallback_run)
  then obtain job' where job': "map_of (processing (run mid s1)) jobId = Some job'"
    "job_id job' = job_id job"
    by (auto simp: awaiting_fallback_def)
  from fin have pc: "tasks (run mid s1) jobId = Some Await_fallback"
    and calls: "calls_of jobId (provider_calls (run mid s1)) = ?calls"
    by (simp_all add: awaiting_fallback_def)
  have c2: "s2 = job_throws jobId e2 (run mid s1)"
    using pc s2 by simp
  note after = job_throws_present [OF job'(1), of e2, folded c2]
  have rel: "\<exists>j. released s2 = released (run mid s1) @ [j]
           \<and> job_id j = job_id job \<and> status j = Failed \<and> error j = Some e2"
    using after(1) job'(2) by simp
  have emit: "\<exists>stageName. emitted s2 = emitted (run mid s1) @ [Job_failed jobId e2 stageName]"
    using after(2) by blast
  have quiet: "step e s2 = s2" if "concerns e jobId"
    using after(3) that by (rule step_without_task)
  have "calls_of jobId (provider_calls s2) = ?calls"
    using after(5) calls by simp
  with at1 rel emit after(3,4) quiet show ?thesis
    by blast
qed

theorem fallback_once_witness:
  "calls_of ''a'' (provider_calls (run two_failures_apart (constructor None))) = [''google'', ''whisper'']
   \<and> map job_id (released (run two_failures_apart (constructor None))) = [''a'']
   \<and> map status (released (run two_failures_apart (constructor None))) = [Failed]
   \<and> map error (released (run two_failures_apart (constructor None)))
       = [Some ''Whisper transcription failed: timeout'']
   \<and> tasks (run two_failures_apart (constructor None)) ''a'' = None"
proof -
  let ?s = "run google_called (constructor None)"
  have fresh: "fresh_ids (google_called @ Provider_error ''a'' ''quota exceeded'' # mid_fallback
      @ [Provider_error ''a'' ''Whisper transcription failed: timeout'']) (constructor None)"
    by (simp add: google_called_def mid_fallback_def run_defs)
  have pc: "tasks ?s ''a'' = Some Await_primary"
    by (simp add: google_called_def run_defs)
  have calls: "provider_calls ?s = [(''a'', ''google'')]"
    by (simp add: google_called_def run_defs)
  have "map fst (processing ?s) = [''a'']"
    by (simp add: google_called_def run_defs)
  then have held: "map_of (processing ?s) ''a'' = Some (snd (hd (processing ?s)))"
    by (rule held_job)
  have ident: "job_id (snd (hd (processing ?s))) = ''a''"
    by (simp add: google_called_def run_defs)
  have mid: "\<forall>e \<in> set mid_fallback. \<not> settles e ''a''"
    by (simp add: mid_fallback_def)
  have rel: "released (run mid_fallback (step (Provider_error ''a'' ''quota exceeded'') ?s)) = []"
    by (simp add: google_called_def mid_fallback_def run_defs)
  have fin: "run two_failures_apart (constructor None)
      = step (Provider_error ''a'' ''Whisper transcription failed: timeout'')
          (run mid_fallback (step (Provider_error ''a'' ''quota exceeded'') ?s))"
    by (simp add: two_failures_apart_def run_append)
  show ?thesis
    using fallback_once [OF fresh refl pc held mid refl refl, of Tick]
    unfolding fin by (auto simp del: step.simps simp add: calls rel ident calls_of_def)
qed

text \<open>
  Claim C2, as amended. When the diarization of a running job throws, the job leaves the
  \<open>processing\<close> Map with status \<open>failed\<close>, the recorded error is the message of the
  thrown error prefixed with \<open>Speaker diarization failed: \<close>, a \<open>job-failed\<close> event is
  emitted, and the pipeline of the job does not go on to finalization.
\<close>

theorem diarization_failure_fails_job:
  assumes "tasks s jobId = Some Await_diarization" and "map_of (processing s) jobId = Some job"
    and "s' = step (Diarization_error jobId message) s"
  shows "released s' = released s
            @ [job\<lparr>status := Failed, error := Some (''Speaker diarization failed: '' @ message)\<rparr>]
    \<and> emitted s' = emitted s
            @ [Job_failed jobId (''Speaker diarization failed: '' @ message) (getCurrentStage job)]
    \<and> map_of (processing s') jobId = None
    \<and> tasks s' jobId = None
    \<and> (concerns e jobId \<longrightarrow> step e s' = s')"
proof -
  have s': "s' = job_throws jobId (''Speaker diarization failed: '' @ message) s"
    using assms(1,3) by simp
  note after = job_throws_present [OF assms(2), of "''Speaker diarization failed: '' @ message",
      folded s']
  have "step e s' = s'" if "concerns e jobId"
    using after(3) that by (rule step_without_task)
  with after show ?thesis
    by simp
qed

theorem diarization_failure_fails_job_witness:
  "map status (released (run diarization_throws (constructor None))) = [Failed]
   \<and> tasks (run diarization_throws (constructor None)) ''a'' = None"
proof -
  have pc: "tasks (run until_diarization (constructor None)) ''a'' = Some Await_diarization"
    by (simp add: until_diarization_def run_defs)
  have rel: "released (run until_diarization (constructor None)) = []"
    by (simp add: until_diarization_def run_defs)
  have "map fst (processing (run until_diarization (constructor None))) = [''a'']"
    by (simp add: until_diarization_def run_defs)
  then have held: "map_of (processing (run until_diarization (constructor None))) ''a''
      = Some (snd (hd (processing (run until_diarization (constructor None)))))"
    by (rule held_job)
  have fin: "run diarization_throws (constructor None)
      = step (Diarization_error ''a'' ''no text'') (run until_diarization (constructor None))"
    by (simp add: diarization_throws_def run_append)
  show ?thesis
    using diarization_failure_fails_job [OF pc held refl, of "''no text''" Tick]
    unfolding fin by (simp del: step.simps add: rel)
qed

text \<open>
  Claim C2 as stated fails: a job whose diarization throws ends \<open>failed\<close>, not
  \<open>completed\<close>.
\<close>

theorem diarization_failure_counterexample:
  "map status (released (run diarization_throws (constructor None))) = [Failed]
   \<and> map error (released (run diarization_throws (constructor None)))
       = [Some ''Speaker diarization failed: no text'']
   \<and> last (emitted (run diarization_throws (constructor None)))
       = Job_failed ''a'' ''Speaker diarization failed: no text'' (Some Diarization)
   \<and> processing (run diarization_throws (constructor None)) = []"
  by (simp add: diarization_throws_def until_diarization_def run_defs)

subsection \<open>Cancellation\<close>

text \<open>
  Claim C1 on a concrete run. \<open>cancelJob\<close> returns true for a job whose transcription
  request is in flight and sets its status to \<open>cancelled\<close>; the remaining stages succeed,
  the job ends with status \<open>completed\<close> and a \<open>job-completed\<close> event, and a later
  \<open>cancelJob\<close> returns false. For a job still in the queue \<open>cancelJob\<close> returns true and
  removes it, and the removed job still has status \<open>queued\<close>.
\<close>

theorem cancel_running_job_completes:
  "fst (cancelJob ''a'' (run until_transcription (constructor None))) = True
   \<and> map (\<lambda>(k, job). status job) (processing (run (until_transcription @ [Cancel ''a'']) (constructor None)))
        = [Cancelled]
   \<and> map status (released (run cancelled_while_running (constructor None))) = [Completed]
   \<and> last (emitted (run cancelled_while_running (constructor None))) = Job_completed ''a''
   \<and> fst (cancelJob ''a'' (run cancelled_while_running (constructor None))) = False
   \<and> fst (cancelJob ''a'' (run [Submit ''a'' None] (constructor None))) = True
   \<and> queue (snd (cancelJob ''a'' (run [Submit ''a'' None] (constructor None)))) = []
   \<and> map status (released (snd (cancelJob ''a'' (run [Submit ''a'' None] (constructor None))))) = [Queued]"
  by (simp add: cancelled_while_running_def until_transcription_def run_defs)

section \<open>Properties of the choice of the cluster count\<close>

lemma calculateDistance_unfold:
  "calculateDistance v1 v2 =
     sqrt ((v1 Duration - v2 Duration) * (v1 Duration - v2 Duration)
         + (v1 SpeechRate - v2 SpeechRate) * (v1 SpeechRate - v2 SpeechRate)
         + (v1 Pitch - v2 Pitch) * (v1 Pitch - v2 Pitch)
         + (v1 Energy - v2 Energy) * (v1 Energy - v2 Energy)
         + (v1 SpectralCentroid - v2 SpectralCentroid) * (v1 SpectralCentroid - v2 SpectralCentroid))"
  by (simp add: calculateDistance_def featureKeys_def)

lemma distance_pitch_only:
  "v1 Duration = v2 Duration \<Longrightarrow> v1 SpeechRate = v2 SpeechRate \<Longrightarrow> v1 Energy = v2 Energy \<Longrightarrow>
   v1 SpectralCentroid = v2 SpectralCentroid \<Longrightarrow>
   calculateDistance v1 v2 = \<bar>v1 Pitch - v2 Pitch\<bar>"
  by (simp add: calculateDistance_unfold)

lemmas kmeans_defs = random_centroid_def math_min_def math_max_def featureKeys_def
  findNearestCentroid_def members_def updateCentroids_def centroidsConverged_def
  assign_point_def kMeansClustering_def two_groups_def pitched_def draws_def Let_def
  distance_pitch_only upt_rec

lemma iterate_numeral:
  "iterate (numeral n) rnd features k centroids assignments pos =
     (let (assignments', changed) =
            fold (assign_point centroids features) [0 ..< length features] (assignments, False);
          (newCentroids, drawn) = updateCentroids rnd pos features assignments' k
      in if \<not> changed \<or> centroidsConverged centroids newCentroids (1 / 1000)
         then (centroids, assignments', drawn)
         else iterate (pred_numeral n) rnd features k newCentroids assignments' drawn)"
  by (simp add: numeral_eq_Suc)

lemmas score_defs = evaluateClusterQuality_def silhouettes_def averageIntraClusterDistance_def
  nearestClusterDistance_def enumerate_eq_zip better_def

lemma avg_bare:
  "averageIntraClusterDistance f c = averageIntraClusterDistance f (bare (cl_features c))"
  by (simp add: averageIntraClusterDistance_def bare_def)

lemma enumerate_map: "enumerate n (map g xs) = map (\<lambda>(i, x). (i, g x)) (enumerate n xs)"
  by (induction xs arbitrary: n) simp_all

lemma nearest_bare:
  "nearestClusterDistance f cs i = nearestClusterDistance f (map (\<lambda>c. bare (cl_features c)) cs) i"
  by (simp add: nearestClusterDistance_def enumerate_map fold_map comp_def case_prod_unfold bare_def
      cong: if_cong)

lemma silhouettes_bare: "silhouettes cs = silhouettes (map (\<lambda>c. bare (cl_features c)) cs)"
proof -
  have "silhouettes (map (\<lambda>c. bare (cl_features c)) cs)
      = concat (map (\<lambda>(clusterIdx, cluster).
                    map (\<lambda>feature.
                           (let a = averageIntraClusterDistance feature (bare (cl_features cluster));
                                b = nearestClusterDistance feature (map (\<lambda>c. bare (cl_features c)) cs) clusterIdx
                            in if b \<noteq> 0 then (b - a) / max a b else 0))
                      (cl_features cluster))
               (enumerate 0 cs))"
    by (simp add: silhouettes_def enumerate_map comp_def case_prod_unfold bare_def)
  then show ?thesis
    by (simp add: silhouettes_def avg_bare [symmetric] nearest_bare [symmetric])
qed

lemma quality_bare:
  "evaluateClusterQuality cs fs = evaluateClusterQuality (map bare (map cl_features cs)) fs'"
  using silhouettes_bare [of cs] by (simp add: evaluateClusterQuality_def comp_def)

lemma score_groups:
  "evaluateClusterQuality (map bare groups2) fs = 19207 / 19404"
  "evaluateClusterQuality (map bare groups3) fs = 38611 / 38808"
  "evaluateClusterQuality (map bare groups4) fs = 1"
  by (simp_all add: groups2_def groups3_def groups4_def score_defs bare_def pitched_def
      distance_pitch_only)

lemma run_two_groups:
  "map_option (\<lambda>(cs, d). (map cl_features cs, d)) (kMeansClustering draws 0 two_groups 2)
     = Some (groups2, 10)"
  "map_option (\<lambda>(cs, d). (map cl_features cs, d)) (kMeansClustering draws 10 two_groups 3)
     = Some (groups3, 25)"
  "map_option (\<lambda>(cs, d). (map cl_features cs, d)) (kMeansClustering draws 25 two_groups 4)
     = Some (groups4, 45)"
  by (simp_all add: groups2_def groups3_def groups4_def kmeans_defs eval_nat_numeral
      iterate_numeral)

lemma kMeans_Some:
  assumes "0 < k"
  shows "\<exists>clusters drawn. kMeansClustering rnd pos features k = Some (clusters, drawn)
            \<and> length clusters = k"
  using assms by (simp add: kMeansClustering_def Let_def split: prod.splits)

lemma kmeans_runs_Some:
  assumes "\<forall>k \<in> set ks. 0 < k"
  shows "\<exists>runs drawn. kmeans_runs rnd features ks pos = Some (runs, drawn) \<and> map length runs = ks"
  using assms
proof (induction ks arbitrary: pos)
  case Nil
  show ?case by simp
next
  case (Cons k ks)
  have "0 < k"
    using Cons.prems by simp
  then obtain clusters drawn where
    run: "kMeansClustering rnd pos features k = Some (clusters, drawn)" "length clusters = k"
    using kMeans_Some [of k rnd pos features] by blast
  have "\<forall>k \<in> set ks. 0 < k"
    using Cons.prems by simp
  from Cons.IH [OF this, of drawn] obtain runs drawn' where
    rest: "kmeans_runs rnd features ks drawn = Some (runs, drawn')" "map length runs = ks"
    by blast
  have "kmeans_runs rnd features (k # ks) pos = Some (clusters # runs, drawn')"
    by (simp add: run(1) rest(1))
  moreover have "map length (clusters # runs) = k # ks"
    by (simp add: run(2) rest(2))
  ultimately have "kmeans_runs rnd features (k # ks) pos = Some (clusters # runs, drawn')
      \<and> map length (clusters # runs) = k # ks"
    by (rule conjI)
  then show ?case
    by (intro exI)
qed

lemma optimal_loop_runs:
  "optimal_loop rnd features ks best pos =
     map_option (\<lambda>(runs, drawn). (fold (keep_best features) runs best, drawn))
       (kmeans_runs rnd features ks pos)"
proof (induction ks arbitrary: best pos)
  case Nil
  show ?case by simp
next
  case (Cons k ks)
  show ?case
  proof (cases "kMeansClustering rnd pos features k")
    case None
    then show ?thesis by simp
  next
    case (Some r)
    obtain clusters drawn where r: "r = (clusters, drawn)" by (cases r)
    show ?thesis
      using Some r Cons [of _ drawn]
      by (simp add: keep_best_def Let_def option.map_comp comp_def case_prod_unfold)
  qed
qed

lemma first_best:
  assumes "runs \<noteq> []"
  shows "\<exists>i < length runs.
           fold (keep_best fs) runs None = Some (runs ! i, evaluateClusterQuality (runs ! i) fs)
           \<and> (\<forall>j < length runs. evaluateClusterQuality (runs ! j) fs \<le> evaluateClusterQuality (runs ! i) fs)
           \<and> (\<forall>j < i. evaluateClusterQuality (runs ! j) fs < evaluateClusterQuality (runs ! i) fs)"
  using assms
proof (induction runs rule: rev_induct)
  case Nil
  then show ?case by simp
next
  case (snoc x xs)
  let ?q = "\<lambda>cs. evaluateClusterQuality cs fs"
  show ?case
  proof (cases "xs = []")
    case True
    then show ?thesis
      by (simp add: keep_best_def better_def)
  next
    case False
    with snoc.IH obtain i where i: "i < length xs"
      "fold (keep_best fs) xs None = Some (xs ! i, ?q (xs ! i))"
      "\<forall>j < length xs. ?q (xs ! j) \<le> ?q (xs ! i)"
      "\<forall>j < i. ?q (xs ! j) < ?q (xs ! i)"
      by blast
    show ?thesis
    proof (cases "?q x > ?q (xs ! i)")
      case True
      have "fold (keep_best fs) (xs @ [x]) None = Some (x, ?q x)"
        using i(2) True by (simp add: keep_best_def better_def)
      moreover have "\<forall>j < length xs. ?q (xs ! j) < ?q x"
        using i(3) True by fastforce
      ultimately show ?thesis
        by (intro exI [of _ "length xs"]) (auto simp: nth_append less_Suc_eq)
    next
      case False
      have "fold (keep_best fs) (xs @ [x]) None = Some (xs ! i, ?q (xs ! i))"
        using i(2) False by (simp add: keep_best_def better_def)
      moreover have "?q x \<le> ?q (xs ! i)"
        using False by simp
      ultimately show ?thesis
        using i by (intro exI [of _ i]) (auto simp: nth_append less_Suc_eq)
    qed
  qed
qed

lemma run_obtain:
  assumes "map_option (\<lambda>(cs, d). (map cl_features cs, d)) (kMeansClustering rnd pos fs k) = Some (g, n)"
  obtains R where "kMeansClustering rnd pos fs k = Some (R, n)" "map cl_features R = g"
  using assms by (cases "kMeansClustering rnd pos fs k") auto

lemma quality_groups:
  "map cl_features R = g \<Longrightarrow> evaluateClusterQuality R fs = evaluateClusterQuality (map bare g) fs"
  using quality_bare [of R fs fs] by simp

lemma draws_unit_interval: "0 \<le> draws n \<and> draws n < 1"
  by (simp add: draws_def)

lemma upt_2_5: "[2 ..< Suc 4] = [2, 3, 4::nat]"
  by (simp add: upt_rec)

lemma upt_2_3: "[2 ..< Suc 2] = [2::nat]"
  by (simp add: upt_rec)

text \<open>
  Claim C9, as amended. For \<open>0 < minSpeakers \<le> maxSpeakers\<close> the automatic choice runs
  k-means once for every \<open>k\<close> from \<open>minSpeakers\<close> to \<open>maxSpeakers\<close> inclusive, in
  increasing order, the run for \<open>k\<close> yielding \<open>k\<close> clusters, and returns the clustering
  of one of these runs whose mean silhouette score is maximal among them; every earlier
  run, that is every smaller \<open>k\<close>, scores strictly less, so a tie goes to the smaller
  \<open>k\<close>. Which \<open>k\<close> that is depends on the random initial centroids.
\<close>

theorem optimal_clusters_first_best:
  assumes "0 < minK" and "minK \<le> maxK"
  shows "\<exists>runs drawn i.
      kmeans_runs rnd features [minK ..< Suc maxK] pos = Some (runs, drawn)
      \<and> map length runs = [minK ..< Suc maxK]
      \<and> i < length runs
      \<and> findOptimalClusters rnd pos features minK maxK = Some (runs ! i, drawn)
      \<and> (\<forall>j < length runs.
            evaluateClusterQuality (runs ! j) features \<le> evaluateClusterQuality (runs ! i) features)
      \<and> (\<forall>j < i.
            evaluateClusterQuality (runs ! j) features < evaluateClusterQuality (runs ! i) features)"
proof -
  have "\<forall>k \<in> set [minK ..< Suc maxK]. 0 < k"
    using assms(1) by auto
  then obtain runs drawn where
    runs: "kmeans_runs rnd features [minK ..< Suc maxK] pos = Some (runs, drawn)"
      "map length runs = [minK ..< Suc maxK]"
    using kmeans_runs_Some by blast
  have "[minK ..< Suc maxK] \<noteq> []"
    using assms(2) by simp
  with runs(2) have "runs \<noteq> []"
    by (metis list.map_disc_iff)
  then obtain i where i: "i < length runs"
    "fold (keep_best features) runs None
       = Some (runs ! i, evaluateClusterQuality (runs ! i) features)"
    "\<forall>j < length runs.
       evaluateClusterQuality (runs ! j) features \<le> evaluateClusterQuality (runs ! i) features"
    "\<forall>j < i. evaluateClusterQuality (runs ! j) features < evaluateClusterQuality (runs ! i) features"
    using first_best [of runs features] by blast
  have "findOptimalClusters rnd pos features minK maxK = Some (runs ! i, drawn)"
    unfolding findOptimalClusters_def optimal_loop_runs runs(1) by (simp add: i(2))
  with runs i show ?thesis
    by blast
qed

theorem optimal_clusters_first_best_witness:
  "map_option (map cl_features) (map_option fst (findOptimalClusters draws 0 two_groups 2 2))
     = Some [[pitched 0 0, pitched 1 1], [pitched 2 99, pitched 3 100]]
   \<and> map_option snd (findOptimalClusters draws 0 two_groups 2 2) = Some 10"
proof -
  obtain R2 where R2: "kMeansClustering draws 0 two_groups 2 = Some (R2, 10)"
    "map cl_features R2 = groups2"
    using run_two_groups(1) by (rule run_obtain)
  have pos: "0 < (2::nat)" and le: "(2::nat) \<le> 2"
    by simp_all
  from optimal_clusters_first_best [OF pos le, of draws two_groups 0]
  obtain runs drawn i where
    runs: "kmeans_runs draws two_groups [2 ..< Suc 2] 0 = Some (runs, drawn)"
    and i: "i < length runs"
    and res: "findOptimalClusters draws 0 two_groups 2 2 = Some (runs ! i, drawn)"
    by blast
  from runs have "runs = [R2]" "drawn = 10"
    unfolding upt_2_3 by (simp_all add: R2(1))
  with i res have "findOptimalClusters draws 0 two_groups 2 2 = Some (R2, 10)"
    by simp
  with R2(2) show ?thesis
    by (simp add: groups2_def)
qed

text \<open>
  The last part of claim C9 fails: for four segments in two well-separated groups, with
  \<open>minSpeakers = 2\<close> and \<open>maxSpeakers = 4\<close>, the run for \<open>k = 2\<close> finds the two
  groups, and yet the clustering returned has four clusters of one segment each. A
  segment alone in its cluster scores 1, the most a silhouette can be.
\<close>

theorem optimal_clusters_counterexample:
  "map_option (map cl_features) (map_option fst (kMeansClustering draws 0 two_groups 2))
     = Some [[pitched 0 0, pitched 1 1], [pitched 2 99, pitched 3 100]]
   \<and> map_option (map cl_features) (map_option fst (findOptimalClusters draws 0 two_groups 2 4))
     = Some [[pitched 0 0], [pitched 1 1], [pitched 2 99], [pitched 3 100]]
   \<and> map_option length (map_option fst (findOptimalClusters draws 0 two_groups 2 4)) = Some 4"
proof -
  obtain R2 where R2: "kMeansClustering draws 0 two_groups 2 = Some (R2, 10)"
    "map cl_features R2 = groups2"
    using run_two_groups(1) by (rule run_obtain)
  obtain R3 where R3: "kMeansClustering draws 10 two_groups 3 = Some (R3, 25)"
    "map cl_features R3 = groups3"
    using run_two_groups(2) by (rule run_obtain)
  obtain R4 where R4: "kMeansClustering draws 25 two_groups 4 = Some (R4, 45)"
    "map cl_features R4 = groups4"
    using run_two_groups(3) by (rule run_obtain)
  have q: "evaluateClusterQuality R2 two_groups = 19207 / 19404"
    "evaluateClusterQuality R3 two_groups = 38611 / 38808"
    "evaluateClusterQuality R4 two_groups = 1"
    by (simp_all add: quality_groups [OF R2(2)] quality_groups [OF R3(2)]
        quality_groups [OF R4(2)] score_groups)
  have "optimal_loop draws two_groups [2, 3, 4] None 0 = Some (Some (R4, 1), 45)"
    by (simp add: R2(1) R3(1) R4(1) q better_def)
  then have best: "findOptimalClusters draws 0 two_groups 2 4 = Some (R4, 45)"
    unfolding findOptimalClusters_def upt_2_5 by simp
  have "length R4 = 4"
    using arg_cong [OF R4(2), of length] by (simp add: groups4_def)
  with best R2 R4(2) show ?thesis
    by (simp add: groups2_def groups4_def)
qed

end
